theory Spec2Isabelle
  imports Complex_Main "HOL-Library.Sublist" "HOL-Library.Multiset" "HOL-Library.Log_Nat"
begin

section \<open>Python values used by audiotools/data/datasets.py\<close>

text \<open>
  Exceptions are values. The class of an exception is what an \<open>except\<close> clause tests;
  the message is what \<open>str(e)\<close> returns. \<open>LibsndfileError\<close> is soundfile's error class.
\<close>

datatype exn_class =
  RuntimeError | LibsndfileError | ValueError | IndexError | KeyError
  | ZeroDivisionError | AssertionError | OtherError

datatype exn = Exn (cls: exn_class) (msg: string)

text \<open>
  \<open>xs[i]\<close> on a Python list. An index from \<open>0\<close> to \<open>len-1\<close> reads from the front, one
  from \<open>-len\<close> to \<open>-1\<close> reads from the back, every other index raises IndexError.
\<close>

definition py_index :: "'a list \<Rightarrow> int \<Rightarrow> exn + 'a" where
  "py_index xs i =
     (if 0 \<le> i \<and> i < int (length xs) then Inr (xs ! nat i)
      else if - int (length xs) \<le> i \<and> i < 0 then Inr (xs ! nat (int (length xs) + i))
      else Inl (Exn IndexError ''list index out of range''))"

section \<open>Numbers\<close>

text \<open>
  Durations, offsets and sample values are Python floats. A float is held as the rational
  number it denotes. \<open>int(x)\<close> truncates towards zero; \<open>round(x)\<close> rounds to the nearest
  integer and a half to the even neighbour.
\<close>

definition py_int :: "rat \<Rightarrow> int" where
  "py_int q = (if 0 \<le> q then \<lfloor>q\<rfloor> else \<lceil>q\<rceil>)"

definition py_round :: "rat \<Rightarrow> int" where
  "py_round q =
     (let f = \<lfloor>q\<rfloor>; r = q - of_int f
      in if r < 1 / 2 then f
         else if 1 / 2 < r then f + 1
         else if even f then f else f + 1)"

text \<open>
  Float arithmetic is IEEE 754 binary64 in the default rounding mode: the result of an
  operation is the exact result rounded to the nearest number with a 53-bit mantissa, and a
  tie goes to the even mantissa. \<open>binade x\<close> is the exponent \<open>e\<close> with
  \<open>2^e \<le> x < 2^(e+1)\<close> of a positive \<open>x\<close>. The exponent is not bounded here: overflow to
  infinity and subnormal numbers are left out.
\<close>

definition binade :: "rat \<Rightarrow> int" where
  "binade x =
     (case quotient_of x of
        (p, q) \<Rightarrow> (let c = bitlen p - bitlen q in if 2 powi c \<le> x then c else c - 1))"

definition float_round :: "rat \<Rightarrow> rat" where
  "float_round x =
     (if x = 0 then 0
      else (let q = 2 powi (binade \<bar>x\<bar> - 52)
            in sgn x * (of_int (py_round (\<bar>x\<bar> / q)) * q)))"

text \<open>
  \<open>float(i)\<close> of an int, \<open>a * b\<close> on floats, and \<open>n / m\<close> on ints (true division, \<open>m\<close> not
  zero). In \<open>duration * sample_rate\<close> the int \<open>sample_rate\<close> is converted first.
\<close>

definition float_of_int :: "int \<Rightarrow> rat" where
  "float_of_int i = float_round (of_int i)"

definition float_mul :: "rat \<Rightarrow> rat \<Rightarrow> rat" where
  "float_mul a b = float_round (a * b)"

definition int_true_div :: "int \<Rightarrow> int \<Rightarrow> rat" where
  "int_true_div n m = float_round (of_int n / of_int m)"

section \<open>Catalog items\<close>

text \<open>
  A catalog item is a dict with the key \<open>path\<close> and any further metadata fields; the
  values are strings or numbers. The sentinel item is \<open>{"path": "none"}\<close>.
\<close>

datatype mval = MStr string | MNum rat

record item =
  path :: string
  extra :: "(string \<times> mval) list"

definition sentinel :: item where
  "sentinel = \<lparr>path = ''none'', extra = []\<rparr>"

text \<open>\<open>audio_info.items()\<close>\<close>

definition item_items :: "item \<Rightarrow> (string \<times> mval) list" where
  "item_items info = (''path'', MStr (path info)) # extra info"

section \<open>Audio signals\<close>

text \<open>
  An \<open>AudioSignal\<close> holds a tensor of shape (batch, channels, samples), its sample rate and
  a metadata dict. The class itself is in \<open>audiotools.core\<close>, outside this file.
\<close>

record signal =
  audio_data :: "rat list list list"
  rate :: int
  metadata :: "(string \<times> mval) list"

definition signal_length :: "signal \<Rightarrow> nat" where
  "signal_length s =
     (case audio_data s of [] \<Rightarrow> 0 | b # _ \<Rightarrow> (case b of [] \<Rightarrow> 0 | c # _ \<Rightarrow> length c))"

definition n_channels :: "signal \<Rightarrow> nat" where
  "n_channels s = (case audio_data s of [] \<Rightarrow> 0 | b # _ \<Rightarrow> length b)"

text \<open>A tensor has at least one batch entry and one channel, and all its rows are as long.\<close>

definition well_shaped :: "signal \<Rightarrow> bool" where
  "well_shaped s \<longleftrightarrow>
     audio_data s \<noteq> []
     \<and> list_all (\<lambda>b. b \<noteq> [] \<and> length b = n_channels s
                     \<and> list_all (\<lambda>c. length c = signal_length s) b) (audio_data s)"

definition zero_valued :: "signal \<Rightarrow> bool" where
  "zero_valued s \<longleftrightarrow> list_all (list_all (list_all (\<lambda>x. x = 0))) (audio_data s)"

text \<open>
  Modelled from the spec: \<open>AudioSignal.zeros(duration, sample_rate, num_channels)\<close> is
  missing from the sources. The spec gives its result: a zero-valued signal of exactly
  \<open>round(duration*sample_rate)\<close> samples, \<open>num_channels\<close> channels, rate \<open>sample_rate\<close>. The
  product is the float product, as it is in \<open>__call__\<close>.
\<close>

definition AudioSignal_zeros :: "rat \<Rightarrow> int \<Rightarrow> int \<Rightarrow> signal" where
  "AudioSignal_zeros duration sample_rate num_channels =
     \<lparr>audio_data =
        [replicate (nat num_channels)
           (replicate (nat (py_round (float_mul duration (float_of_int sample_rate)))) 0)],
      rate = sample_rate, metadata = []\<rparr>"

text \<open>
  Modelled from the spec: \<open>AudioSignal.zero_pad_to(length)\<close> is missing from the sources.
  The spec gives its effect: the shortfall is zero-filled at the trailing edge; a signal that
  is long enough is left as it is.
\<close>

definition zero_pad_to :: "signal \<Rightarrow> int \<Rightarrow> signal" where
  "zero_pad_to s n =
     s\<lparr>audio_data :=
         map (map (\<lambda>c. c @ replicate (nat (n - int (signal_length s))) 0)) (audio_data s)\<rparr>"

text \<open>
  Modelled from the spec: the property \<open>AudioSignal.duration\<close> is missing from the sources;
  it is the decoded duration, the number of samples divided by the sample rate, a float.
  The division raises at rate 0.
\<close>

definition signal_duration :: "signal \<Rightarrow> exn + rat" where
  "signal_duration s =
     (if rate s = 0 then Inl (Exn ZeroDivisionError ''division by zero'')
      else Inr (int_true_div (int (signal_length s)) (rate s)))"

text \<open>\<open>signal.metadata[k] = v\<close> for every pair of a dict, in order.\<close>

definition dict_set :: "(string \<times> 'v) list \<Rightarrow> string \<Rightarrow> 'v \<Rightarrow> (string \<times> 'v) list" where
  "dict_set d k v =
     (if k \<in> set (map fst d) then map (\<lambda>(k', v'). if k' = k then (k', v) else (k', v')) d
      else d @ [(k, v)])"

definition dict_update :: "(string \<times> 'v) list \<Rightarrow> (string \<times> 'v) list \<Rightarrow> (string \<times> 'v) list" where
  "dict_update d kvs = foldl (\<lambda>acc (k, v). dict_set acc k v) d kvs"

section \<open>External collaborators\<close>

text \<open>
  The seeded generator (\<open>numpy.random.RandomState\<close>), the codec, the transforms and the
  file system are not part of this file. Every one of them is a field of the environment.
  A generator state is named by a number; a call that draws from the generator returns the
  state it leaves. A call that may raise returns a sum.
  \<^item> \<open>random_state seed\<close>: \<open>util.random_state(seed)\<close>.
  \<^item> \<open>shuffle state n\<close>: the order in which \<open>state.shuffle\<close> leaves a list of \<open>n\<close> entries,
    as the list of the old positions.
  \<^item> \<open>choose_from_list_of_lists\<close>: \<open>util.choose_from_list_of_lists(state, lists, p)\<close>.
  \<^item> \<open>salient_excerpt path duration state loudness_cutoff\<close>,
    \<open>salient_excerpts value duration state loudness_cutoff num_excerpts max_excerpts\<close>:
    the class methods of \<open>AudioSignal\<close>.
  \<^item> \<open>load_signal path offset duration\<close>: \<open>AudioSignal(path, offset=offset, duration=duration)\<close>.
  \<^item> \<open>to_mono\<close>, \<open>to_rand_mono\<close>, \<open>resample\<close>: methods of \<open>AudioSignal\<close>.
  \<^item> \<open>instantiate transform state signal\<close>: \<open>transform.instantiate(state, signal=signal)\<close>.
  \<^item> \<open>encodable path\<close>: writing the path to the text file does not raise UnicodeEncodeError.
  \<^item> \<open>AUDIO_EXTENSIONS\<close>: \<open>util.AUDIO_EXTENSIONS\<close>.
\<close>

type_synonym rstate = nat
type_synonym transform = string
type_synonym targs = "(string \<times> rat) list"

record env =
  random_state :: "int \<Rightarrow> rstate"
  shuffle :: "rstate \<Rightarrow> nat \<Rightarrow> nat list \<times> rstate"
  choose_from_list_of_lists ::
    "rstate \<Rightarrow> item list list \<Rightarrow> rat list option \<Rightarrow> (exn + item \<times> int \<times> int) \<times> rstate"
  salient_excerpt :: "string \<Rightarrow> rat \<Rightarrow> rstate \<Rightarrow> rat \<Rightarrow> (exn + signal) \<times> rstate"
  salient_excerpts ::
    "string \<Rightarrow> rat \<Rightarrow> rstate \<Rightarrow> rat \<Rightarrow> int \<Rightarrow> int option \<Rightarrow> (exn + signal) \<times> rstate"
  load_signal :: "string \<Rightarrow> mval \<Rightarrow> rat \<Rightarrow> exn + signal"
  to_mono :: "signal \<Rightarrow> signal"
  to_rand_mono :: "signal \<Rightarrow> signal"
  resample :: "signal \<Rightarrow> int \<Rightarrow> signal"
  instantiate :: "transform \<Rightarrow> rstate \<Rightarrow> signal \<Rightarrow> targs \<times> rstate"
  encodable :: "string \<Rightarrow> bool"
  AUDIO_EXTENSIONS :: "string list"

text \<open>What the program prints, and the lines of \<open>/tmp/corrupt.txt\<close>.\<close>

record world =
  stdout :: "string list"
  corrupt_txt :: "string list"

text \<open>\<open>state.shuffle(xs)\<close>: the list in the order the generator gives.\<close>

definition shuffled :: "env \<Rightarrow> rstate \<Rightarrow> 'a list \<Rightarrow> 'a list \<times> rstate" where
  "shuffled e state xs =
     (case shuffle e state (length xs) of (order, state') \<Rightarrow> (map (\<lambda>i. xs ! i) order, state'))"

section \<open>AudioLoader\<close>

record AudioLoader =
  audio_lists :: "item list list"
  audio_indices :: "(int \<times> int) list"
  sources :: "string list"
  weights :: "rat list option"
  transform :: "transform option"

text \<open>
  \<open>AudioLoader.__init__\<close>. The catalogs are what \<open>util.read_sources\<close> returned for the
  sources, one catalog for each source.
  \<^verbatim>\<open>self.audio_indices = [(src_idx, item_idx)
      for src_idx, src in enumerate(self.audio_lists) for item_idx in range(len(src))]
  if shuffle:
      state = util.random_state(shuffle_state); state.shuffle(self.audio_indices)\<close>
\<close>

definition flat_indices :: "item list list \<Rightarrow> (int \<times> int) list" where
  "flat_indices catalogs =
     concat (map (\<lambda>(src_idx, src). map (\<lambda>item_idx. (int src_idx, int item_idx)) [0..<length src])
                 (enumerate 0 catalogs))"

definition AudioLoader_init ::
  "env \<Rightarrow> item list list \<Rightarrow> string list \<Rightarrow> rat list option \<Rightarrow> transform option
     \<Rightarrow> bool \<Rightarrow> int \<Rightarrow> AudioLoader" where
  "AudioLoader_init e catalogs srcs wts tr do_shuffle shuffle_state =
     \<lparr>audio_lists = catalogs,
      audio_indices =
        (if do_shuffle then fst (shuffled e (random_state e shuffle_state) (flat_indices catalogs))
         else flat_indices catalogs),
      sources = srcs, weights = wts, transform = tr\<rparr>"

text \<open>\<open>self.audio_indices[global_idx % len(self.audio_indices)]\<close>\<close>

definition lookup_global :: "AudioLoader \<Rightarrow> int \<Rightarrow> exn + int \<times> int" where
  "lookup_global self global_idx =
     (if length (audio_indices self) = 0
      then Inl (Exn ZeroDivisionError ''integer division or modulo by zero'')
      else py_index (audio_indices self) (global_idx mod int (length (audio_indices self))))"

text \<open>\<open>self.audio_lists[source_idx][item_idx]\<close>\<close>

definition lookup_item :: "AudioLoader \<Rightarrow> int \<Rightarrow> int \<Rightarrow> exn + item" where
  "lookup_item self source_idx item_idx =
     (case py_index (audio_lists self) source_idx of
        Inl e \<Rightarrow> Inl e
      | Inr src \<Rightarrow> py_index src item_idx)"

text \<open>
  The first statement of \<open>AudioLoader.__call__\<close>: which item is sampled.
  \<^verbatim>\<open>if source_idx is not None and item_idx is not None:
      try: audio_info = self.audio_lists[source_idx][item_idx]
      except: audio_info = {"path": "none"}
  elif global_idx is not None:
      source_idx, item_idx = self.audio_indices[global_idx % len(self.audio_indices)]
      audio_info = self.audio_lists[source_idx][item_idx]
  else:
      audio_info, source_idx, item_idx = util.choose_from_list_of_lists(
          state, self.audio_lists, p=self.weights)\<close>
\<close>

definition resolve_item ::
  "env \<Rightarrow> AudioLoader \<Rightarrow> rstate \<Rightarrow> int option \<Rightarrow> int option \<Rightarrow> int option
     \<Rightarrow> (exn + item \<times> int \<times> int) \<times> rstate" where
  "resolve_item e self state source_idx item_idx global_idx =
     (if source_idx \<noteq> None \<and> item_idx \<noteq> None
      then (case lookup_item self (the source_idx) (the item_idx) of
              Inl _ \<Rightarrow> (Inr (sentinel, the source_idx, the item_idx), state)
            | Inr audio_info \<Rightarrow> (Inr (audio_info, the source_idx, the item_idx), state))
      else (case global_idx of
              Some g \<Rightarrow>
                (case lookup_global self g of
                   Inl err \<Rightarrow> (Inl err, state)
                 | Inr (src_i, item_i) \<Rightarrow>
                     (case lookup_item self src_i item_i of
                        Inl err \<Rightarrow> (Inl err, state)
                      | Inr audio_info \<Rightarrow> (Inr (audio_info, src_i, item_i), state)))
            | None \<Rightarrow> choose_from_list_of_lists e state (audio_lists self) (weights self)))"

text \<open>
  The decoding statement of \<open>AudioLoader.__call__\<close>; \<open>silence\<close> is the signal that
  \<open>AudioSignal.zeros\<close> returned before.
  \<^verbatim>\<open>if path != "none":
      if offset is None:
          try:
              signal = AudioSignal.salient_excerpt(path, duration=duration, state=state,
                                                   loudness_cutoff=loudness_cutoff)
          except (RuntimeError, soundfile.LibsndfileError) as e:
              if (isinstance(e, soundfile.LibsndfileError)
                  or "The size of tensor a (5) must match the size of tensor b (6) at non-singleton dimension 1" in str(e)
                  or "is empty!" in str(e)):
                  print(f"Error loading audio at {path}. Skipping...")
                  with open("/tmp/corrupt.txt", "a+") as file:
                      try: file.write(f"{path}\n")
                      except UnicodeEncodeError: pass
              else: raise e
      else:
          signal = AudioSignal(path, offset=offset, duration=duration)\<close>
\<close>

definition tensor_size_message :: string where
  "tensor_size_message =
     ''The size of tensor a (5) must match the size of tensor b (6) at non-singleton dimension 1''"

definition log_corrupt :: "env \<Rightarrow> world \<Rightarrow> string \<Rightarrow> world" where
  "log_corrupt e w p =
     \<lparr>stdout = stdout w @ [''Error loading audio at '' @ p @ ''. Skipping...''],
      corrupt_txt = (if encodable e p then corrupt_txt w @ [p] else corrupt_txt w)\<rparr>"

definition decode_excerpt ::
  "env \<Rightarrow> world \<Rightarrow> rstate \<Rightarrow> string \<Rightarrow> signal \<Rightarrow> rat \<Rightarrow> rat \<Rightarrow> mval option
     \<Rightarrow> (exn + signal) \<times> rstate \<times> world" where
  "decode_excerpt e w state p silence duration loudness_cutoff offset =
     (if p \<noteq> ''none''
      then (case offset of
              None \<Rightarrow>
                (case salient_excerpt e p duration state loudness_cutoff of
                   (Inr excerpt, state') \<Rightarrow> (Inr excerpt, state', w)
                 | (Inl err, state') \<Rightarrow>
                     if cls err = RuntimeError \<or> cls err = LibsndfileError
                     then if cls err = LibsndfileError
                             \<or> sublist tensor_size_message (msg err)
                             \<or> sublist ''is empty!'' (msg err)
                          then (Inr silence, state', log_corrupt e w p)
                          else (Inl err, state', w)
                     else (Inl err, state', w))
            | Some off \<Rightarrow>
                (case load_signal e p off duration of
                   Inl err \<Rightarrow> (Inl err, state, w)
                 | Inr excerpt \<Rightarrow> (Inr excerpt, state, w)))
      else (Inr silence, state, w))"

text \<open>
  The statements after decoding:
  \<^verbatim>\<open>if num_channels == 1: signal = signal.to_mono()
  signal = signal.resample(sample_rate)
  if signal.duration < duration:
      signal = signal.zero_pad_to(int(duration * sample_rate))
  for k, v in audio_info.items(): signal.metadata[k] = v\<close>
\<close>

definition postprocess :: "env \<Rightarrow> signal \<Rightarrow> int \<Rightarrow> rat \<Rightarrow> int \<Rightarrow> exn + signal" where
  "postprocess e excerpt sample_rate duration num_channels =
     (let mono = (if num_channels = 1 then to_mono e excerpt else excerpt);
          resampled = resample e mono sample_rate
      in case signal_duration resampled of
           Inl err \<Rightarrow> Inl err
         | Inr d \<Rightarrow>
             Inr (if d < duration
                  then zero_pad_to resampled
                         (py_int (float_mul duration (float_of_int sample_rate)))
                  else resampled))"

text \<open>The dict that \<open>__call__\<close> returns.\<close>

record sample =
  out_signal :: signal
  out_source_idx :: int
  out_item_idx :: int
  out_source :: string
  out_path :: string
  out_transform_args :: "targs option"

definition AudioLoader_call ::
  "env \<Rightarrow> AudioLoader \<Rightarrow> world \<Rightarrow> rstate \<Rightarrow> int \<Rightarrow> rat \<Rightarrow> rat \<Rightarrow> int
     \<Rightarrow> mval option \<Rightarrow> int option \<Rightarrow> int option \<Rightarrow> int option
     \<Rightarrow> (exn + sample) \<times> rstate \<times> world" where
  "AudioLoader_call e self w state sample_rate duration loudness_cutoff num_channels
       offset source_idx item_idx global_idx =
     (case resolve_item e self state source_idx item_idx global_idx of
        (Inl err, st0) \<Rightarrow> (Inl err, st0, w)
      | (Inr (audio_info, src_i, item_i), st0) \<Rightarrow>
          (case decode_excerpt e w st0 (path audio_info)
                  (AudioSignal_zeros duration sample_rate num_channels)
                  duration loudness_cutoff offset of
             (Inl err, st1, w1) \<Rightarrow> (Inl err, st1, w1)
           | (Inr excerpt, st1, w1) \<Rightarrow>
               (case postprocess e excerpt sample_rate duration num_channels of
                  Inl err \<Rightarrow> (Inl err, st1, w1)
                | Inr padded \<Rightarrow>
                    (let sig = padded\<lparr>metadata :=
                                  dict_update (metadata padded) (item_items audio_info)\<rparr>
                     in case py_index (sources self) src_i of
                          Inl err \<Rightarrow> (Inl err, st1, w1)
                        | Inr src \<Rightarrow>
                            (case transform self of
                               None \<Rightarrow>
                                 (Inr \<lparr>out_signal = sig, out_source_idx = src_i,
                                       out_item_idx = item_i, out_source = src,
                                       out_path = path audio_info,
                                       out_transform_args = None\<rparr>, st1, w1)
                             | Some t \<Rightarrow>
                                 (case instantiate e t st1 sig of
                                    (args, st2) \<Rightarrow>
                                      (Inr \<lparr>out_signal = sig, out_source_idx = src_i,
                                            out_item_idx = item_i, out_source = src,
                                            out_path = path audio_info,
                                            out_transform_args = Some args\<rparr>, st2, w1)))))))"

section \<open>Aligning catalogs\<close>

text \<open>
  \<open>align_lists(lists, matcher)\<close>:
  \<^verbatim>\<open>longest_list = lists[np.argmax([len(l) for l in lists])]
  for i, x in enumerate(longest_list):
      for l in lists:
          if i >= len(l): l.append({"path": "none"})
          elif not matcher(l[i]["path"], x["path"]): l.insert(i, {"path": "none"})
  return lists\<close>
  \<open>np.argmax\<close> returns the first position of the greatest length and raises ValueError on an
  empty sequence. The catalogs are distinct list objects; the longest one is one of them,
  so the loop reads it while the inner loop may lengthen it. A loop that lengthens the
  longest list at every step never ends; then the result is \<open>None\<close>.
\<close>

definition argmax_len :: "'a list list \<Rightarrow> nat" where
  "argmax_len catalogs =
     (let lens = map length catalogs
      in length (takeWhile (\<lambda>n. n \<noteq> Max (set lens)) lens))"

definition align_one :: "(string \<Rightarrow> string \<Rightarrow> bool) \<Rightarrow> nat \<Rightarrow> item \<Rightarrow> item list \<Rightarrow> item list" where
  "align_one matcher i x l =
     (if i \<ge> length l then l @ [sentinel]
      else if \<not> matcher (path (l ! i)) (path x) then take i l @ sentinel # drop i l
      else l)"

partial_function (option) align_loop ::
  "(string \<Rightarrow> string \<Rightarrow> bool) \<Rightarrow> nat \<Rightarrow> nat \<Rightarrow> item list list \<Rightarrow> item list list option" where
  "align_loop matcher k i catalogs =
     (if i < length (catalogs ! k)
      then align_loop matcher k (Suc i) (map (align_one matcher i (catalogs ! k ! i)) catalogs)
      else Some catalogs)"

declare align_loop.simps [code]

definition align_lists ::
  "item list list \<Rightarrow> (string \<Rightarrow> string \<Rightarrow> bool) \<Rightarrow> (exn + item list list) option" where
  "align_lists catalogs matcher =
     (if catalogs = []
      then Some (Inl (Exn ValueError ''attempt to get argmax of an empty sequence''))
      else map_option Inr (align_loop matcher (argmax_len catalogs) 0 catalogs))"

section \<open>AudioDataset\<close>

record 'k AudioDataset =
  loaders :: "('k \<times> AudioLoader) list"
  ds_loudness_cutoff :: rat
  ds_num_channels :: int
  ds_length :: nat
  ds_transform :: "transform option"
  ds_sample_rate :: int
  ds_duration :: rat
  ds_offset :: "mval option"
  aligned :: bool
  shuffle_loaders :: bool
  without_replacement :: bool

text \<open>
  The alignment loop of \<open>AudioDataset.__init__\<close>, over the source numbers of the first
  loader:
  \<^verbatim>\<open>for i in range(len(loaders_list[0].audio_lists)):
      input_lists = [l.audio_lists[i] for l in loaders_list]
      align_lists(input_lists, matcher)   # in place\<close>
\<close>

fun gather :: "(exn + 'a) list \<Rightarrow> exn + 'a list" where
  "gather [] = Inr []"
| "gather (Inl err # rest) = Inl err"
| "gather (Inr x # rest) = (case gather rest of Inl err \<Rightarrow> Inl err | Inr xs \<Rightarrow> Inr (x # xs))"

fun align_sources ::
  "(string \<Rightarrow> string \<Rightarrow> bool) \<Rightarrow> nat list \<Rightarrow> AudioLoader list \<Rightarrow> (exn + AudioLoader list) option" where
  "align_sources matcher [] loaders_list = Some (Inr loaders_list)"
| "align_sources matcher (i # remaining) loaders_list =
     (case gather (map (\<lambda>l. py_index (audio_lists l) (int i)) loaders_list) of
        Inl err \<Rightarrow> Some (Inl err)
      | Inr input_lists \<Rightarrow>
          (case align_lists input_lists matcher of
             None \<Rightarrow> None
           | Some (Inl err) \<Rightarrow> Some (Inl err)
           | Some (Inr result) \<Rightarrow>
               align_sources matcher remaining
                 (map (\<lambda>(l, c). l\<lparr>audio_lists := (audio_lists l)[i := c]\<rparr>)
                      (zip loaders_list result))))"

definition AudioDataset_init ::
  "('k \<times> AudioLoader) list \<Rightarrow> int \<Rightarrow> nat \<Rightarrow> rat \<Rightarrow> mval option \<Rightarrow> rat \<Rightarrow> int
     \<Rightarrow> transform option \<Rightarrow> bool \<Rightarrow> bool \<Rightarrow> (string \<Rightarrow> string \<Rightarrow> bool) \<Rightarrow> bool
     \<Rightarrow> (exn + 'k AudioDataset) option" where
  "AudioDataset_init named_loaders sample_rate n_examples duration offset loudness_cutoff
       num_channels tr is_aligned do_shuffle matcher no_replacement =
     (let build = (\<lambda>ls. \<lparr>loaders = zip (map fst named_loaders) ls,
                          ds_loudness_cutoff = loudness_cutoff,
                          ds_num_channels = num_channels, ds_length = n_examples,
                          ds_transform = tr, ds_sample_rate = sample_rate,
                          ds_duration = duration, ds_offset = offset,
                          aligned = is_aligned, shuffle_loaders = do_shuffle,
                          without_replacement = no_replacement\<rparr>)
      in if is_aligned
         then (case map snd named_loaders of
                 [] \<Rightarrow> Some (Inl (Exn IndexError ''list index out of range''))
               | l0 # rest \<Rightarrow>
                   (case align_sources matcher [0..<length (audio_lists l0)] (l0 # rest) of
                      None \<Rightarrow> None
                    | Some (Inl err) \<Rightarrow> Some (Inl err)
                    | Some (Inr ls) \<Rightarrow> Some (Inr (build ls))))
         else Some (Inr (build (map snd named_loaders))))"

text \<open>
  The loop of \<open>AudioDataset.__getitem__\<close> over the loaders after the first:
  \<^verbatim>\<open>for key in keys[1:]:
      loader = self.loaders[key]
      if self.aligned:
          offset = item[keys[0]]["signal"].metadata["offset"]
          loader_kwargs.update({"offset": offset,
              "source_idx": item[keys[0]]["source_idx"],
              "item_idx": item[keys[0]]["item_idx"]})
      item[key] = loader(**loader_kwargs)\<close>
  \<open>first\<close> is \<open>item[keys[0]]\<close>.
\<close>

definition forced_kwargs ::
  "'k AudioDataset \<Rightarrow> sample \<Rightarrow> exn + mval option \<times> int option \<times> int option" where
  "forced_kwargs self first =
     (if aligned self
      then (case map_of (metadata (out_signal first)) ''offset'' of
              None \<Rightarrow> Inl (Exn KeyError ''offset'')
            | Some off \<Rightarrow> Inr (Some off, Some (out_source_idx first), Some (out_item_idx first)))
      else Inr (None, None, None))"

fun call_rest ::
  "env \<Rightarrow> 'k AudioDataset \<Rightarrow> sample \<Rightarrow> int option \<Rightarrow> world \<Rightarrow> rstate \<Rightarrow> 'k list
     \<Rightarrow> (exn + ('k \<times> sample) list) \<times> rstate \<times> world" where
  "call_rest e self first global_idx w state [] = (Inr [], state, w)"
| "call_rest e self first global_idx w state (key # remaining) =
     (case map_of (loaders self) key of
        None \<Rightarrow> (Inl (Exn KeyError ''loader''), state, w)
      | Some loader \<Rightarrow>
          (case forced_kwargs self first of
             Inl err \<Rightarrow> (Inl err, state, w)
           | Inr (offset, source_idx, item_idx) \<Rightarrow>
               (case AudioLoader_call e loader w state (ds_sample_rate self) (ds_duration self)
                       (ds_loudness_cutoff self) (ds_num_channels self)
                       offset source_idx item_idx global_idx of
                  (Inl err, st1, w1) \<Rightarrow> (Inl err, st1, w1)
                | (Inr smp, st1, w1) \<Rightarrow>
                    (case call_rest e self first global_idx w1 st1 remaining of
                       (Inl err, st2, w2) \<Rightarrow> (Inl err, st2, w2)
                     | (Inr others, st2, w2) \<Rightarrow> (Inr ((key, smp) # others), st2, w2)))))"

text \<open>
  The item that \<open>__getitem__\<close> returns: the samples by loader name in the declared order,
  \<open>idx\<close> and the transform arguments; with a single loader its sample is moved up into the
  item and its own \<open>transform_args\<close> replaces the dataset's.
\<close>

datatype 'k dataset_item =
  Tracks "('k \<times> sample) list" int "targs option"
  | Flat sample int "targs option"

text \<open>
  The end of \<open>AudioDataset.__getitem__\<close>; \<open>item\<close> holds the samples in call order.
  \<^verbatim>\<open>keys = list(self.loaders.keys())
  item = {k: item[k] for k in keys}
  item["idx"] = idx
  if self.transform is not None:
      item["transform_args"] = self.transform.instantiate(
          state=state, signal=item[keys[0]]["signal"])
  if len(keys) == 1: item.update(item.pop(keys[0]))
  return item\<close>
\<close>

definition assemble ::
  "env \<Rightarrow> 'k AudioDataset \<Rightarrow> int \<Rightarrow> ('k \<times> sample) list \<Rightarrow> rstate \<Rightarrow> world
     \<Rightarrow> (exn + 'k dataset_item) \<times> rstate \<times> world" where
  "assemble e self idx item state w =
     (let declared = map fst (loaders self)
      in case gather (map (\<lambda>k. case map_of item k of
                                  None \<Rightarrow> Inl (Exn KeyError ''item'')
                                | Some smp \<Rightarrow> Inr (k, smp)) declared) of
           Inl err \<Rightarrow> (Inl err, state, w)
         | Inr tracks \<Rightarrow>
             (let (args, st3) =
                    (case ds_transform self of
                       None \<Rightarrow> (None, state)
                     | Some t \<Rightarrow>
                         (case instantiate e t state (out_signal (snd (hd tracks))) of
                            (a, st') \<Rightarrow> (Some a, st')))
              in if length declared = 1
                 then (Inr (Flat (snd (hd tracks)) idx
                              (case out_transform_args (snd (hd tracks)) of
                                 None \<Rightarrow> args
                               | Some a \<Rightarrow> Some a)), st3, w)
                 else (Inr (Tracks tracks idx args), st3, w)))"

text \<open>
  \<open>AudioDataset.__getitem__\<close>:
  \<^verbatim>\<open>state = util.random_state(idx)
  keys = list(self.loaders.keys())
  if self.shuffle_loaders: state.shuffle(keys)
  loader_kwargs = {..., "global_idx": idx if self.without_replacement else None}
  loader = self.loaders[keys[0]]
  item[keys[0]] = loader(**loader_kwargs)
  for key in keys[1:]: ...\<close>
  and then \<open>assemble\<close>: the samples in the declared order, \<open>idx\<close>, the transform arguments for
  the signal of the first declared loader, and the move of a single sample into the item.
\<close>

definition AudioDataset_getitem ::
  "env \<Rightarrow> 'k AudioDataset \<Rightarrow> world \<Rightarrow> int \<Rightarrow> (exn + 'k dataset_item) \<times> rstate \<times> world" where
  "AudioDataset_getitem e self w idx =
     (let state = random_state e idx;
          declared = map fst (loaders self);
          (keys, st0) = (if shuffle_loaders self then shuffled e state declared
                         else (declared, state));
          global_idx = (if without_replacement self then Some idx else None)
      in case keys of
           [] \<Rightarrow> (Inl (Exn IndexError ''list index out of range''), st0, w)
         | k0 # others \<Rightarrow>
             (case map_of (loaders self) k0 of
                None \<Rightarrow> (Inl (Exn KeyError ''loader''), st0, w)
              | Some loader \<Rightarrow>
                  (case AudioLoader_call e loader w st0 (ds_sample_rate self) (ds_duration self)
                          (ds_loudness_cutoff self) (ds_num_channels self)
                          None None None global_idx of
                     (Inl err, st1, w1) \<Rightarrow> (Inl err, st1, w1)
                   | (Inr first, st1, w1) \<Rightarrow>
                       (case call_rest e self first global_idx w1 st1 others of
                          (Inl err, st2, w2) \<Rightarrow> (Inl err, st2, w2)
                        | (Inr rest, st2, w2) \<Rightarrow>
                            assemble e self idx ((k0, first) # rest) st2 w2))))"

section \<open>Streaming decode\<close>

text \<open>
  A grouped sample of the archive reader: a dict from entry keys to their bytes.
  \<^verbatim>\<open>extension = "." + re.sub(r".*[.]", "", key)\<close> keeps what follows the last dot of the key
  (keys are file names, without line breaks).
\<close>

type_synonym wsample = "(string \<times> string) list"

definition key_extension :: "string \<Rightarrow> string" where
  "key_extension key = ''.'' @ rev (takeWhile (\<lambda>c. c \<noteq> CHR ''.'') (rev key))"

fun find_audio_entry :: "string list \<Rightarrow> wsample \<Rightarrow> (string \<times> string) option" where
  "find_audio_entry exts [] = None"
| "find_audio_entry exts ((key, value) # remaining) =
     (if key_extension key \<in> set exts then Some (key, value)
      else find_audio_entry exts remaining)"

text \<open>
  Modelled from the spec: iterating a batched \<open>AudioSignal\<close> is missing from the sources;
  by the spec each excerpt of the entry becomes its own record.
\<close>

definition excerpts_of :: "signal \<Rightarrow> signal list" where
  "excerpts_of s = map (\<lambda>b. s\<lparr>audio_data := [b]\<rparr>) (audio_data s)"

datatype 'a outcome = Skipped | Raised exn | Yielded "'a list"

text \<open>
  One turn of the loop of \<open>decode_audiosignal\<close>:
  \<^verbatim>\<open>try:
      signals = AudioSignal.salient_excerpts(filelike, duration=duration, state=state,
          loudness_cutoff=loudness_cutoff, num_excerpts=num_excerpts, max_excerpts=max_excerpts)
  except (RuntimeError, soundfile.LibsndfileError, ValueError) as e:
      if (isinstance(e, soundfile.LibsndfileError)
          or "The size of tensor a (5) must match the size of tensor b (6) at non-singleton dimension 1" in str(e)
          or "is empty!" in str(e) or "array is too big" in str(e)):
          print(f"Error loading audio. Value: {key} Skipping..."); continue
      else: raise e\<close>
\<close>

definition decode_sample ::
  "env \<Rightarrow> world \<Rightarrow> rstate \<Rightarrow> rat \<Rightarrow> rat \<Rightarrow> int \<Rightarrow> int \<Rightarrow> int \<Rightarrow> int option \<Rightarrow> bool \<Rightarrow> wsample
     \<Rightarrow> (wsample \<times> signal) outcome \<times> rstate \<times> world" where
  "decode_sample e w state duration loudness_cutoff num_channels sample_rate num_excerpts
       max_excerpts random_mono_channel smp =
     (case find_audio_entry (AUDIO_EXTENSIONS e) smp of
        None \<Rightarrow>
          (Skipped, state,
           w\<lparr>stdout := stdout w @ [''Warning: Failed to find audio key in sample.'']\<rparr>)
      | Some (key, value) \<Rightarrow>
          (case salient_excerpts e value duration state loudness_cutoff num_excerpts
                  max_excerpts of
             (Inl err, st1) \<Rightarrow>
               if cls err = RuntimeError \<or> cls err = LibsndfileError \<or> cls err = ValueError
               then if cls err = LibsndfileError
                       \<or> sublist tensor_size_message (msg err)
                       \<or> sublist ''is empty!'' (msg err)
                       \<or> sublist ''array is too big'' (msg err)
                    then (Skipped, st1,
                          w\<lparr>stdout := stdout w
                               @ [''Error loading audio. Value: '' @ key @ '' Skipping...'']\<rparr>)
                    else (Raised err, st1, w)
               else (Raised err, st1, w)
           | (Inr signals, st1) \<Rightarrow>
               (let mono = (if num_channels = 1
                            then (if random_mono_channel then to_rand_mono e signals
                                  else to_mono e signals)
                            else signals);
                    resampled = resample e mono sample_rate
                in case signal_duration resampled of
                     Inl err \<Rightarrow> (Raised err, st1, w)
                   | Inr d \<Rightarrow>
                       (let padded = (if d < duration
                                      then zero_pad_to resampled
                                             (py_int (float_mul duration
                                                        (float_of_int sample_rate)))
                                      else resampled)
                        in (Yielded (map (\<lambda>sig. (filter (\<lambda>(k, v). k \<noteq> key) smp, sig))
                                         (excerpts_of padded)), st1, w)))))"

text \<open>
  The generator \<open>decode_audiosignal\<close> run to its end: the records it yields and the
  exception that ended it, if one did.
\<close>

fun decode_stream ::
  "env \<Rightarrow> rat \<Rightarrow> rat \<Rightarrow> int \<Rightarrow> int \<Rightarrow> int \<Rightarrow> int option \<Rightarrow> bool \<Rightarrow> world \<Rightarrow> rstate
     \<Rightarrow> wsample list \<Rightarrow> ((wsample \<times> signal) list \<times> exn option) \<times> rstate \<times> world" where
  "decode_stream e duration loudness_cutoff num_channels sample_rate num_excerpts
       max_excerpts random_mono_channel w state [] = (([], None), state, w)"
| "decode_stream e duration loudness_cutoff num_channels sample_rate num_excerpts
       max_excerpts random_mono_channel w state (smp # remaining) =
     (case decode_sample e w state duration loudness_cutoff num_channels sample_rate
             num_excerpts max_excerpts random_mono_channel smp of
        (Skipped, st1, w1) \<Rightarrow>
          decode_stream e duration loudness_cutoff num_channels sample_rate num_excerpts
            max_excerpts random_mono_channel w1 st1 remaining
      | (Raised err, st1, w1) \<Rightarrow> (([], Some err), st1, w1)
      | (Yielded records, st1, w1) \<Rightarrow>
          (case decode_stream e duration loudness_cutoff num_channels sample_rate num_excerpts
                  max_excerpts random_mono_channel w1 st1 remaining of
             ((later, ending), st2, w2) \<Rightarrow> ((records @ later, ending), st2, w2)))"

definition decode_audiosignal ::
  "env \<Rightarrow> world \<Rightarrow> wsample list \<Rightarrow> mval option \<Rightarrow> rat \<Rightarrow> rstate \<Rightarrow> rat \<Rightarrow> int \<Rightarrow> int \<Rightarrow> int
     \<Rightarrow> int option \<Rightarrow> bool \<Rightarrow> ((wsample \<times> signal) list \<times> exn option) \<times> rstate \<times> world" where
  "decode_audiosignal e w data offset duration state loudness_cutoff num_channels sample_rate
       num_excerpts max_excerpts random_mono_channel =
     (if offset \<noteq> None then (([], Some (Exn AssertionError [])), state, w)
      else decode_stream e duration loudness_cutoff num_channels sample_rate num_excerpts
             max_excerpts random_mono_channel w state data)"

section \<open>ConcatDataset\<close>

text \<open>
  A member dataset is an object with \<open>__len__\<close> and \<open>__getitem__\<close>. Its \<open>__getitem__\<close>
  may raise, so it returns a sum.
\<close>

record 'a dataset =
  ds_len :: nat
  ds_getitem :: "int \<Rightarrow> exn + 'a"

text \<open>\<open>ConcatDataset.__len__\<close>: \<open>sum([len(d) for d in self.datasets])\<close>.\<close>

definition ConcatDataset_len :: "'a dataset list \<Rightarrow> nat" where
  "ConcatDataset_len datasets = sum_list (map ds_len datasets)"

text \<open>
  \<open>ConcatDataset.__getitem__\<close>:
  \<^verbatim>\<open>dataset = self.datasets[idx % len(self.datasets)]; return dataset[idx // len(self.datasets)]\<close>.
  Python's \<open>%\<close> and \<open>//\<close> are floored, as \<open>mod\<close> and \<open>div\<close> on \<open>int\<close> are; with no
  datasets the modulo raises ZeroDivisionError.
\<close>

definition ConcatDataset_getitem :: "'a dataset list \<Rightarrow> int \<Rightarrow> exn + 'a" where
  "ConcatDataset_getitem datasets idx =
     (if length datasets = 0
      then Inl (Exn ZeroDivisionError ''integer division or modulo by zero'')
      else (case py_index datasets (idx mod int (length datasets)) of
              Inl e \<Rightarrow> Inl e
            | Inr dataset \<Rightarrow> ds_getitem dataset (idx div int (length datasets))))"

section \<open>Resumable samplers\<close>

text \<open>
  The only state of a resumable sampler is \<open>start_idx\<close>. The parent sampler's
  \<open>__iter__\<close> is not part of this file; the sequence it yields in a pass is an argument.
\<close>

record sampler =
  start_idx :: int

text \<open>
  \<open>ResumableSequentialSampler.__init__\<close>:
  \<^verbatim>\<open>self.start_idx = start_idx if start_idx is not None else 0\<close>.
\<close>

definition ResumableSequentialSampler_init :: "int option \<Rightarrow> sampler" where
  "ResumableSequentialSampler_init start =
     \<lparr>start_idx = (case start of None \<Rightarrow> 0 | Some k \<Rightarrow> k)\<rparr>"

text \<open>
  \<open>ResumableDistributedSampler.__init__\<close>:
  \<^verbatim>\<open>self.start_idx = start_idx // self.num_replicas if start_idx is not None else 0\<close>.
  \<open>num_replicas\<close> is set by the parent constructor; zero replicas make \<open>//\<close> raise.
\<close>

definition ResumableDistributedSampler_init :: "int \<Rightarrow> int option \<Rightarrow> exn + sampler" where
  "ResumableDistributedSampler_init num_replicas start =
     (case start of
        None \<Rightarrow> Inr \<lparr>start_idx = 0\<rparr>
      | Some k \<Rightarrow>
          if num_replicas = 0
          then Inl (Exn ZeroDivisionError ''integer division or modulo by zero'')
          else Inr \<lparr>start_idx = k div num_replicas\<rparr>)"

text \<open>
  \<open>__iter__\<close> of both samplers, run to exhaustion:
  \<^verbatim>\<open>for i, idx in enumerate(super().__iter__()):
      if i >= self.start_idx: yield idx
  self.start_idx = 0\<close>
  The result is what the pass yields and the sampler after it.
\<close>

definition sampler_iter :: "sampler \<Rightarrow> 'a list \<Rightarrow> 'a list \<times> sampler" where
  "sampler_iter s wrapped =
     (map snd (filter (\<lambda>(i, idx). int i \<ge> start_idx s) (enumerate 0 wrapped)),
      s\<lparr>start_idx := 0\<rparr>)"

text \<open>Successive full passes of one sampler, one wrapped sequence for each pass.\<close>

fun sampler_passes :: "sampler \<Rightarrow> 'a list list \<Rightarrow> 'a list list" where
  "sampler_passes s [] = []"
| "sampler_passes s (wrapped # rest) =
     (case sampler_iter s wrapped of (out, s') \<Rightarrow> out # sampler_passes s' rest)"


section \<open>Conditions used in the statements\<close>

text \<open>
  The recognized decode failures in the words of the specification: a corrupt stream
  (soundfile's own error), an empty file, the tensor-shape mismatch.
\<close>

definition recognized_decode_failure :: "exn \<Rightarrow> bool" where
  "recognized_decode_failure err \<longleftrightarrow>
     cls err = LibsndfileError
     \<or> sublist ''is empty!'' (msg err)
     \<or> sublist tensor_size_message (msg err)"

text \<open>The exceptions of the excerpt search that the loader replaces by silence.\<close>

definition loader_recovers :: "exn \<Rightarrow> bool" where
  "loader_recovers err \<longleftrightarrow>
     cls err = LibsndfileError
     \<or> (cls err = RuntimeError
         \<and> (sublist tensor_size_message (msg err) \<or> sublist ''is empty!'' (msg err)))"

text \<open>The exceptions of the excerpt search for which the stream skips the entry.\<close>

definition stream_recovers :: "exn \<Rightarrow> bool" where
  "stream_recovers err \<longleftrightarrow>
     cls err = LibsndfileError
     \<or> ((cls err = RuntimeError \<or> cls err = ValueError)
         \<and> (sublist tensor_size_message (msg err) \<or> sublist ''is empty!'' (msg err)
             \<or> sublist ''array is too big'' (msg err)))"

text \<open>
  What the statements on signal lengths ask of the codec: its results are well shaped,
  downmixing a one-channel signal and resampling to the rate a signal already has change
  nothing, and a resampled signal has the rate asked for.
\<close>

definition codec_ok :: "env \<Rightarrow> bool" where
  "codec_ok e \<longleftrightarrow>
     (\<forall>s. well_shaped s \<longrightarrow>
           well_shaped (to_mono e s) \<and> (n_channels s = 1 \<longrightarrow> to_mono e s = s))
     \<and> (\<forall>s r. well_shaped s \<longrightarrow>
           well_shaped (resample e s r) \<and> rate (resample e s r) = r
           \<and> (rate s = r \<longrightarrow> resample e s r = s))
     \<and> (\<forall>p d st c s st'. salient_excerpt e p d st c = (Inr s, st') \<longrightarrow> well_shaped s)
     \<and> (\<forall>p off d s. load_signal e p off d = Inr s \<longrightarrow> well_shaped s)"

text \<open>
  The first \<open>n\<close> positions of the catalogs are aligned to catalog number \<open>k\<close>: every
  catalog has them, and at each of them an entry and the entry of catalog \<open>k\<close> that are
  both not sentinels satisfy the matcher.
\<close>

definition aligned_upto ::
  "(string \<Rightarrow> string \<Rightarrow> bool) \<Rightarrow> nat \<Rightarrow> nat \<Rightarrow> item list list \<Rightarrow> bool" where
  "aligned_upto matcher k n catalogs \<longleftrightarrow>
     (\<forall>l \<in> set catalogs. n \<le> length l)
     \<and> (\<forall>j < n. \<forall>l \<in> set catalogs.
           path (l ! j) = ''none'' \<or> path (catalogs ! k ! j) = ''none''
           \<or> matcher (path (l ! j)) (path (catalogs ! k ! j)))"

text \<open>
  The sample \<open>smp\<close> is one that the loader named \<open>key\<close> returns when it is called with the
  offset found in the metadata of the signal of \<open>first\<close> and with the \<open>source_idx\<close> and
  \<open>item_idx\<close> of \<open>first\<close>.
\<close>

definition forced_by ::
  "env \<Rightarrow> 'k AudioDataset \<Rightarrow> sample \<Rightarrow> int option \<Rightarrow> 'k \<Rightarrow> sample \<Rightarrow> bool" where
  "forced_by e self first global_idx key smp \<longleftrightarrow>
     (\<exists>loader w state off.
         map_of (loaders self) key = Some loader
       \<and> map_of (metadata (out_signal first)) ''offset'' = Some off
       \<and> fst (AudioLoader_call e loader w state (ds_sample_rate self) (ds_duration self)
                (ds_loudness_cutoff self) (ds_num_channels self)
                (Some off) (Some (out_source_idx first)) (Some (out_item_idx first))
                global_idx) = Inr smp)"

text \<open>The order in which \<open>__getitem__(idx)\<close> calls the loaders.\<close>

definition call_order :: "env \<Rightarrow> 'k AudioDataset \<Rightarrow> int \<Rightarrow> 'k list" where
  "call_order e self idx =
     (if shuffle_loaders self
      then fst (shuffled e (random_state e idx) (map fst (loaders self)))
      else map fst (loaders self))"


section \<open>Concrete inputs\<close>

text \<open>Member datasets that answer every request with their own number and the inner index.\<close>

definition member_of_len :: "nat \<Rightarrow> nat \<Rightarrow> (nat \<times> int) dataset" where
  "member_of_len number n = \<lparr>ds_len = n, ds_getitem = (\<lambda>i. Inr (number, i))\<rparr>"

text \<open>
  An environment: the generator state is a counter, shuffling reverses, the codec decodes
  every file to one sample at rate 3, except the files named below.
\<close>

definition one_sample :: signal where
  "one_sample = \<lparr>audio_data = [[[1]]], rate = 3, metadata = [(''offset'', MNum 0)]\<rparr>"

definition demo_env :: env where
  "demo_env =
     \<lparr>random_state = (\<lambda>seed. nat \<bar>seed\<bar>),
      shuffle = (\<lambda>state n. (rev [0..<n], Suc state)),
      choose_from_list_of_lists =
        (\<lambda>state catalogs p. (Inl (Exn ValueError ''no items''), Suc state)),
      salient_excerpt =
        (\<lambda>p duration state cutoff.
           (if p = ''corrupt.wav'' then Inl (Exn LibsndfileError ''Error opening corrupt.wav'')
            else if p = ''broken.wav'' then Inl (Exn OtherError ''disk failure'')
            else Inr one_sample, Suc state)),
      salient_excerpts =
        (\<lambda>value duration state cutoff num_excerpts max_excerpts.
           (if value = ''huge'' then Inl (Exn ValueError ''array is too big'')
            else if value = ''bad'' then Inl (Exn OtherError ''disk failure'')
            else Inr one_sample, Suc state)),
      load_signal =
        (\<lambda>p offset duration.
           if p = ''corrupt.wav'' then Inl (Exn LibsndfileError ''Error opening corrupt.wav'')
           else Inr (one_sample\<lparr>metadata := [(''offset'', offset)]\<rparr>)),
      to_mono = (\<lambda>s. s\<lparr>audio_data := map (take 1) (audio_data s)\<rparr>),
      to_rand_mono = (\<lambda>s. s\<lparr>audio_data := map (take 1) (audio_data s)\<rparr>),
      resample = (\<lambda>s r. s\<lparr>rate := r\<rparr>),
      instantiate = (\<lambda>t state s. ([], Suc state)),
      encodable = (\<lambda>p. True),
      AUDIO_EXTENSIONS = [''.wav'', ''.flac'', ''.mp3'', ''.mp4'']\<rparr>"

definition quiet :: world where
  "quiet = \<lparr>stdout = [], corrupt_txt = []\<rparr>"

definition track :: "string \<Rightarrow> item" where
  "track p = \<lparr>path = p, extra = []\<rparr>"

text \<open>A loader over two sources with two items and one item.\<close>

definition demo_loader :: AudioLoader where
  "demo_loader =
     AudioLoader_init demo_env [[track ''a.wav'', track ''b.wav''], [track ''c.wav'']]
       [''first'', ''second''] None None True 0"


text \<open>
  The sample of the loader above for \<open>global_idx = 0\<close> at rate 100 and the float duration 0.29:
  the one decoded sample and 27 zeros.
\<close>

definition padded_sample :: sample where
  "padded_sample =
     \<lparr>out_signal = \<lparr>audio_data = [[1 # replicate 27 0]], rate = 100,
                     metadata = [(''offset'', MNum 0), (''path'', MStr ''c.wav'')]\<rparr>,
      out_source_idx = 1, out_item_idx = 0, out_source = ''second'',
      out_path = ''c.wav'', out_transform_args = None\<rparr>"

text \<open>A loader whose first file is corrupt and whose second file cannot be read.\<close>

definition faulty_loader :: AudioLoader where
  "faulty_loader =
     AudioLoader_init demo_env [[track ''corrupt.wav'', track ''broken.wav'']]
       [''files''] None None False 0"

text \<open>The silent sample of the loader above for the pair (1, 5).\<close>

definition silent_sample :: sample where
  "silent_sample =
     \<lparr>out_signal = \<lparr>audio_data = [[[0, 0]]], rate = 3,
                     metadata = [(''path'', MStr ''none'')]\<rparr>,
      out_source_idx = 1, out_item_idx = 5, out_source = ''second'',
      out_path = ''none'', out_transform_args = None\<rparr>"

text \<open>Two tracks of three recordings; the second recording of the drums is another one.\<close>

definition vocals :: "item list" where
  "vocals = [track ''a/vocals.wav'', track ''b/vocals.wav'', track ''c/vocals.wav'']"

definition drums :: "item list" where
  "drums = [track ''a/drums.wav'', track ''x/drums.wav'', track ''c/drums.wav'']"

text \<open>
  The two tracks as loaders, the dataset that aligning them under \<open>same_dir\<close> gives, and the
  samples of its item 1.
\<close>

definition vocals_loader :: AudioLoader where
  "vocals_loader = AudioLoader_init demo_env [vocals] [''stems''] None None False 0"

definition drums_loader :: AudioLoader where
  "drums_loader = AudioLoader_init demo_env [drums] [''stems''] None None False 0"

definition demo_dataset :: "string AudioDataset" where
  "demo_dataset =
     \<lparr>loaders =
        [(''vocals'', vocals_loader),
         (''drums'', drums_loader\<lparr>audio_lists :=
              [[track ''a/drums.wav'', sentinel, sentinel,
                track ''x/drums.wav'', track ''c/drums.wav'']]\<rparr>)],
      ds_loudness_cutoff = - 40, ds_num_channels = 1, ds_length = 1000,
      ds_transform = None, ds_sample_rate = 3, ds_duration = 1 / 2, ds_offset = None,
      aligned = True, shuffle_loaders = False, without_replacement = True\<rparr>"

definition vocals_sample :: sample where
  "vocals_sample =
     \<lparr>out_signal = \<lparr>audio_data = [[[1]]], rate = 3,
                     metadata = [(''offset'', MNum 0), (''path'', MStr ''b/vocals.wav'')]\<rparr>,
      out_source_idx = 0, out_item_idx = 1, out_source = ''stems'',
      out_path = ''b/vocals.wav'', out_transform_args = None\<rparr>"

definition drums_sample :: sample where
  "drums_sample =
     \<lparr>out_signal = \<lparr>audio_data = [[[0, 0]]], rate = 3,
                     metadata = [(''path'', MStr ''none'')]\<rparr>,
      out_source_idx = 0, out_item_idx = 1, out_source = ''stems'',
      out_path = ''none'', out_transform_args = None\<rparr>"


text \<open>A matcher: the two paths have the same text before their last slash.\<close>

definition same_dir :: "string \<Rightarrow> string \<Rightarrow> bool" where
  "same_dir x y \<longleftrightarrow>
     rev (dropWhile (\<lambda>c. c \<noteq> CHR ''/'') (rev x)) = rev (dropWhile (\<lambda>c. c \<noteq> CHR ''/'') (rev y))"

section \<open>Lemmas on ConcatDataset\<close>

lemma py_index_in_range:
  "0 \<le> i \<Longrightarrow> i < int (length xs) \<Longrightarrow> py_index xs i = Inr (xs ! nat i)"
  by (simp add: py_index_def)

lemma ConcatDataset_getitem_route:
  assumes "datasets \<noteq> []"
  shows "ConcatDataset_getitem datasets idx =
         ds_getitem (datasets ! nat (idx mod int (length datasets)))
                    (idx div int (length datasets))"
proof -
  have pos: "0 < int (length datasets)" using assms by simp
  have "0 \<le> idx mod int (length datasets)" "idx mod int (length datasets) < int (length datasets)"
    using pos by simp_all
  then have "py_index datasets (idx mod int (length datasets))
             = Inr (datasets ! nat (idx mod int (length datasets)))"
    by (rule py_index_in_range)
  then show ?thesis using assms by (simp add: ConcatDataset_getitem_def)
qed

text \<open>
  C8. \<open>ConcatDataset.__len__\<close> is the sum of the member lengths; \<open>__getitem__(idx)\<close>
  hands the request to member number \<open>idx mod k\<close> with inner index \<open>idx div k\<close>; for two
  members of lengths 2 and 3 the indices 0..4 go to members 0,1,0,1,0 with inner indices
  0,0,1,1,2.
\<close>

theorem C8_concat_routing:
  "ConcatDataset_len datasets = (\<Sum>d\<leftarrow>datasets. ds_len d)
   \<and> (datasets \<noteq> [] \<longrightarrow>
        ConcatDataset_getitem datasets idx =
          ds_getitem (datasets ! nat (idx mod int (length datasets)))
                     (idx div int (length datasets)))
   \<and> (ds_len d0 = 2 \<and> ds_len d1 = 3 \<longrightarrow>
        ConcatDataset_len [d0, d1] = 5
        \<and> map (ConcatDataset_getitem [d0, d1]) [0, 1, 2, 3, 4]
            = [ds_getitem d0 0, ds_getitem d1 0, ds_getitem d0 1, ds_getitem d1 1,
               ds_getitem d0 2])"
proof (intro conjI impI)
  show "ConcatDataset_len datasets = (\<Sum>d\<leftarrow>datasets. ds_len d)"
    by (simp add: ConcatDataset_len_def)
next
  assume "datasets \<noteq> []"
  then show "ConcatDataset_getitem datasets idx =
          ds_getitem (datasets ! nat (idx mod int (length datasets)))
                     (idx div int (length datasets))"
    by (rule ConcatDataset_getitem_route)
next
  assume "ds_len d0 = 2 \<and> ds_len d1 = 3"
  then show "ConcatDataset_len [d0, d1] = 5"
    by (simp add: ConcatDataset_len_def)
next
  show "map (ConcatDataset_getitem [d0, d1]) [0, 1, 2, 3, 4]
            = [ds_getitem d0 0, ds_getitem d1 0, ds_getitem d0 1, ds_getitem d1 1,
               ds_getitem d0 2]"
    by (simp add: ConcatDataset_getitem_route)
qed

theorem C8_concat_routing_witness:
  "[member_of_len 0 2, member_of_len 1 3] \<noteq> []
   \<and> ds_len (member_of_len 0 2) = 2 \<and> ds_len (member_of_len 1 3) = 3
   \<and> ConcatDataset_len [member_of_len 0 2, member_of_len 1 3] = 5
   \<and> ConcatDataset_getitem [member_of_len 0 2, member_of_len 1 3] 3 = Inr (1, 1)
   \<and> map (ConcatDataset_getitem [member_of_len 0 2, member_of_len 1 3]) [0, 1, 2, 3, 4]
       = [Inr (0, 0), Inr (1, 0), Inr (0, 1), Inr (1, 1), Inr (0, 2)]"
  using C8_concat_routing [of "[member_of_len 0 2, member_of_len 1 3]" 3
      "member_of_len 0 2" "member_of_len 1 3"]
  by (simp add: member_of_len_def)

section \<open>The missing bounds check of ConcatDataset\<close>

lemma concat_overrun_iff:
  assumes "datasets \<noteq> []"
  shows "(\<exists>idx. 0 \<le> idx \<and> idx < int (ConcatDataset_len datasets)
            \<and> int (ds_len (datasets ! nat (idx mod int (length datasets))))
                \<le> idx div int (length datasets))
         \<longleftrightarrow> (\<exists>j < length datasets.
                length datasets * ds_len (datasets ! j) + j < ConcatDataset_len datasets)"
    (is "?L \<longleftrightarrow> ?R")
proof
  define k where "k = int (length datasets)"
  have kpos: "0 < k" using assms by (simp add: k_def)
  assume ?L
  then obtain idx where idx: "0 \<le> idx" "idx < int (ConcatDataset_len datasets)"
      and over: "int (ds_len (datasets ! nat (idx mod k))) \<le> idx div k"
    by (auto simp: k_def)
  define j where "j = nat (idx mod k)"
  have jk: "j < length datasets"
    using kpos by (simp add: j_def k_def nat_less_iff)
  have jint: "int j = idx mod k" using kpos by (simp add: j_def)
  have le: "k * int (ds_len (datasets ! j)) \<le> k * (idx div k)"
    using over kpos by (simp add: j_def)
  have split: "idx = k * (idx div k) + idx mod k" by simp
  have "k * int (ds_len (datasets ! j)) + int j < int (ConcatDataset_len datasets)"
    using le split jint idx(2) by linarith
  then have "int (length datasets * ds_len (datasets ! j) + j) < int (ConcatDataset_len datasets)"
    by (simp add: k_def)
  then have "length datasets * ds_len (datasets ! j) + j < ConcatDataset_len datasets"
    by (simp only: of_nat_less_iff)
  with jk show ?R by blast
next
  define k where "k = int (length datasets)"
  have kpos: "0 < k" using assms by (simp add: k_def)
  assume ?R
  then obtain j where jk: "j < length datasets"
      and lt: "length datasets * ds_len (datasets ! j) + j < ConcatDataset_len datasets"
    by blast
  define idx where "idx = k * int (ds_len (datasets ! j)) + int j"
  have j1: "0 \<le> int j" "int j < k" using jk by (simp_all add: k_def)
  have m: "idx mod k = int j" using j1 by (simp add: idx_def)
  have d: "idx div k = int (ds_len (datasets ! j))"
    using j1 kpos by (simp add: idx_def)
  have "0 \<le> idx" using kpos by (simp add: idx_def)
  moreover have "idx < int (ConcatDataset_len datasets)"
  proof -
    have "idx = int (length datasets * ds_len (datasets ! j) + j)"
      by (simp add: idx_def k_def)
    then show ?thesis using lt by (simp only: of_nat_less_iff)
  qed
  moreover have "int (ds_len (datasets ! nat (idx mod k))) \<le> idx div k"
    by (simp add: m d)
  ultimately show ?L unfolding k_def by blast
qed

text \<open>
  C10, as the code has it. \<open>ConcatDataset.__getitem__\<close> checks no bound: whatever the
  member's length, the item is requested from member \<open>idx mod count\<close> at inner index
  \<open>idx div count\<close>. An index below the concatenated length whose inner index reaches or
  passes the chosen member's length exists exactly when some member \<open>j\<close> has
  \<open>count * len j + j\<close> below the concatenated length; with member lengths 2 and 3 the index
  4 asks member 0 (of length 2) for inner index 2.
\<close>

theorem C10_concat_no_bounds_check:
  "datasets \<noteq> [] \<Longrightarrow>
     ConcatDataset_getitem datasets idx =
        ds_getitem (datasets ! nat (idx mod int (length datasets)))
                   (idx div int (length datasets))
     \<and> ((\<exists>i. 0 \<le> i \<and> i < int (ConcatDataset_len datasets)
            \<and> int (ds_len (datasets ! nat (i mod int (length datasets))))
                \<le> i div int (length datasets))
         \<longleftrightarrow> (\<exists>j < length datasets.
                length datasets * ds_len (datasets ! j) + j < ConcatDataset_len datasets))"
  using ConcatDataset_getitem_route [of datasets idx] concat_overrun_iff [of datasets]
  by blast

theorem C10_concat_no_bounds_check_witness:
  "[member_of_len 0 2, member_of_len 1 3] \<noteq> []
   \<and> (4::int) < int (ConcatDataset_len [member_of_len 0 2, member_of_len 1 3])
   \<and> ConcatDataset_getitem [member_of_len 0 2, member_of_len 1 3] 4 = Inr (0, 2)
   \<and> ds_len (member_of_len 0 2) = 2
   \<and> (\<exists>i. 0 \<le> i \<and> i < int (ConcatDataset_len [member_of_len 0 2, member_of_len 1 3])
          \<and> int (ds_len ([member_of_len 0 2, member_of_len 1 3] ! nat (i mod 2))) \<le> i div 2)"
proof -
  have ne: "[member_of_len 0 2, member_of_len 1 3] \<noteq> []" by simp
  have j: "\<exists>j < length [member_of_len 0 2, member_of_len 1 3].
             length [member_of_len 0 2, member_of_len 1 3]
               * ds_len ([member_of_len 0 2, member_of_len 1 3] ! j) + j
             < ConcatDataset_len [member_of_len 0 2, member_of_len 1 3]"
    by (rule exI [of _ 0]) (simp add: member_of_len_def ConcatDataset_len_def)
  from C10_concat_no_bounds_check [OF ne, of 4] j
  show ?thesis
    by (simp add: member_of_len_def ConcatDataset_len_def)
qed

text \<open>
  Unequal member lengths alone do not give such an index: with member lengths 3 and 2 every
  index below 5 is routed inside its member.
\<close>

theorem C10_unequal_lengths_counterexample:
  "ds_len (member_of_len 0 3) \<noteq> ds_len (member_of_len 1 2)
   \<and> \<not> (\<exists>idx. 0 \<le> idx
            \<and> idx < int (ConcatDataset_len [member_of_len 0 3, member_of_len 1 2])
            \<and> int (ds_len ([member_of_len 0 3, member_of_len 1 2]
                     ! nat (idx mod int (length [member_of_len 0 3, member_of_len 1 2]))))
                \<le> idx div int (length [member_of_len 0 3, member_of_len 1 2]))"
proof -
  have "\<not> (\<exists>j < length [member_of_len 0 3, member_of_len 1 2].
             length [member_of_len 0 3, member_of_len 1 2]
               * ds_len ([member_of_len 0 3, member_of_len 1 2] ! j) + j
             < ConcatDataset_len [member_of_len 0 3, member_of_len 1 2])"
  proof
    assume "\<exists>j < length [member_of_len 0 3, member_of_len 1 2].
             length [member_of_len 0 3, member_of_len 1 2]
               * ds_len ([member_of_len 0 3, member_of_len 1 2] ! j) + j
             < ConcatDataset_len [member_of_len 0 3, member_of_len 1 2]"
    then obtain j where j: "j < length [member_of_len 0 3, member_of_len 1 2]"
        and lt: "length [member_of_len 0 3, member_of_len 1 2]
               * ds_len ([member_of_len 0 3, member_of_len 1 2] ! j) + j
             < ConcatDataset_len [member_of_len 0 3, member_of_len 1 2]"
      by blast
    from j have "j = 0 \<or> j = 1" by auto
    then show False using lt by (auto simp: member_of_len_def ConcatDataset_len_def)
  qed
  then show ?thesis
    using concat_overrun_iff [of "[member_of_len 0 3, member_of_len 1 2]"]
    by (simp add: member_of_len_def)
qed

section \<open>Resuming a sampler\<close>

lemma enumerate_skip:
  "map snd (filter (\<lambda>(i, idx). int i \<ge> k) (enumerate n xs)) = drop (nat (k - int n)) xs"
proof (induction xs arbitrary: n)
  case Nil
  then show ?case by simp
next
  case (Cons x xs)
  show ?case
  proof (cases "k \<le> int n")
    case True
    then show ?thesis using Cons [of "Suc n"] by simp
  next
    case False
    then have "nat (k - int n) = Suc (nat (k - int (Suc n)))" by simp
    then show ?thesis using False Cons [of "Suc n"] by simp
  qed
qed

lemma sampler_iter_drop:
  "sampler_iter s wrapped = (drop (nat (start_idx s)) wrapped, s\<lparr>start_idx := 0\<rparr>)"
  using enumerate_skip [of "start_idx s" 0 wrapped] by (simp add: sampler_iter_def)

lemma sampler_passes_reset:
  "start_idx s = 0 \<Longrightarrow> sampler_passes s ws = ws"
  by (induction ws arbitrary: s) (simp_all add: sampler_iter_drop)

lemma sampler_passes_first:
  "sampler_passes s (w # rest) = drop (nat (start_idx s)) w # rest"
  by (simp add: sampler_iter_drop sampler_passes_reset)

text \<open>
  C9. A sequential sampler built with \<open>start_idx = k\<close> yields on its first full pass the
  wrapped sequence without its first \<open>k\<close> entries, that is its last \<open>L - k\<close> entries in
  order, and on every later pass the whole wrapped sequence. The distributed sampler does
  the same with \<open>k div num_replicas\<close> in place of \<open>k\<close>, on the sequence of its replica.
\<close>

theorem C9_resume:
  "sampler_passes (ResumableSequentialSampler_init (Some k)) (w # rest)
     = drop (nat k) w # rest
   \<and> suffix (drop (nat k) w) w
   \<and> (0 \<le> k \<and> k \<le> int (length w) \<longrightarrow>
        int (length (fst (sampler_iter (ResumableSequentialSampler_init (Some k)) w)))
          = int (length w) - k)
   \<and> (num_replicas \<noteq> 0 \<longrightarrow>
        (\<exists>s. ResumableDistributedSampler_init num_replicas (Some k) = Inr s
           \<and> start_idx s = k div num_replicas
           \<and> sampler_passes s (w # rest) = drop (nat (k div num_replicas)) w # rest))"
proof (intro conjI impI)
  show "sampler_passes (ResumableSequentialSampler_init (Some k)) (w # rest)
     = drop (nat k) w # rest"
    by (simp only: sampler_passes_first) (simp add: ResumableSequentialSampler_init_def)
  show "suffix (drop (nat k) w) w"
    by (rule suffix_drop)
next
  assume "0 \<le> k \<and> k \<le> int (length w)"
  then show "int (length (fst (sampler_iter (ResumableSequentialSampler_init (Some k)) w)))
          = int (length w) - k"
    by (simp add: sampler_iter_drop ResumableSequentialSampler_init_def nat_le_iff)
next
  assume "num_replicas \<noteq> 0"
  then have "ResumableDistributedSampler_init num_replicas (Some k)
             = Inr \<lparr>start_idx = k div num_replicas\<rparr>"
    by (simp add: ResumableDistributedSampler_init_def)
  then show "\<exists>s. ResumableDistributedSampler_init num_replicas (Some k) = Inr s
           \<and> start_idx s = k div num_replicas
           \<and> sampler_passes s (w # rest) = drop (nat (k div num_replicas)) w # rest"
    by (simp add: sampler_passes_first del: sampler_passes.simps)
qed

theorem C9_resume_witness:
  "sampler_passes (ResumableSequentialSampler_init (Some 2))
       [[10, 11, 12, 13, 14 :: int], [20, 21, 22, 23, 24], [30, 31, 32, 33, 34]]
     = [[12, 13, 14], [20, 21, 22, 23, 24], [30, 31, 32, 33, 34]]
   \<and> (0::int) \<le> 2 \<and> (2::int) \<le> int (length [10, 11, 12, 13, 14 :: int])
   \<and> length (fst (sampler_iter (ResumableSequentialSampler_init (Some 2))
                 [10, 11, 12, 13, 14 :: int])) = 3
   \<and> (2::int) \<noteq> 0
   \<and> (\<exists>s. ResumableDistributedSampler_init 2 (Some 5) = Inr s
         \<and> sampler_passes s [[10, 11, 12, 13, 14 :: int], [20, 21, 22, 23, 24]]
             = [[12, 13, 14], [20, 21, 22, 23, 24]])"
  using C9_resume [of 2 "[10, 11, 12, 13, 14 :: int]"
      "[[20, 21, 22, 23, 24], [30, 31, 32, 33, 34]]" 2]
    C9_resume [of 5 "[10, 11, 12, 13, 14 :: int]" "[[20, 21, 22, 23, 24]]" 2]
  by (simp add: ResumableDistributedSampler_init_def)

section \<open>Sampling without replacement\<close>













lemma call_reports_resolved:
  assumes "AudioLoader_call e self w st sr d lc nc off si ii gi = (Inr smp, st', w')"
  shows "\<exists>info st0. resolve_item e self st si ii gi
                      = (Inr (info, out_source_idx smp, out_item_idx smp), st0)
                   \<and> out_path smp = path info"
  using assms
  by (auto simp: AudioLoader_call_def Let_def split: prod.splits sum.splits option.splits)






section \<open>Lookups out of range\<close>

text \<open>
  C6, at an input where the code raises. The loader has two sources and two catalogs;
  \<open>source_idx = 2\<close> is out of range. The lookup falls back to the sentinel item, and the
  call then raises IndexError at \<open>self.sources[source_idx]\<close>.
\<close>

theorem C6_out_of_range_source_raises:
  "length (sources demo_loader) = length (audio_lists demo_loader)
   \<and> fst (resolve_item demo_env demo_loader 0 (Some 2) (Some 0) None) = Inr (sentinel, 2, 0)
   \<and> fst (AudioLoader_call demo_env demo_loader quiet 0 3 (1 / 2) (- 40) 1
            None (Some 2) (Some 0) None)
       = Inl (Exn IndexError ''list index out of range'')"
  by code_simp

section \<open>Decode failures\<close>



lemma call_after_failure:
  assumes r: "resolve_item e self st si ii gi = (Inr (info, s, i), st0)"
    and p: "path info \<noteq> ''none''"
    and x: "salient_excerpt e (path info) d st0 lc = (Inl err, st1)"
  shows "if loader_recovers err
         then decode_excerpt e w st0 (path info) (AudioSignal_zeros d sr nc) d lc None
                = (Inr (AudioSignal_zeros d sr nc), st1, log_corrupt e w (path info))
              \<and> snd (snd (AudioLoader_call e self w st sr d lc nc None si ii gi))
                  = log_corrupt e w (path info)
              \<and> fst (AudioLoader_call e self w st sr d lc nc None si ii gi) \<noteq> Inl err
         else AudioLoader_call e self w st sr d lc nc None si ii gi = (Inl err, st1, w)"
proof (cases "loader_recovers err")
  case True
  have d: "decode_excerpt e w st0 (path info) (AudioSignal_zeros d sr nc) d lc None
                = (Inr (AudioSignal_zeros d sr nc), st1, log_corrupt e w (path info))"
    using True p x by (auto simp: decode_excerpt_def loader_recovers_def)
  have c: "cls err = LibsndfileError \<or> cls err = RuntimeError"
    using True by (auto simp: loader_recovers_def)
  have w: "snd (snd (AudioLoader_call e self w st sr d lc nc None si ii gi))
                  = log_corrupt e w (path info)"
    using r d by (simp add: AudioLoader_call_def Let_def split: sum.splits option.splits prod.splits)
  have n: "fst (AudioLoader_call e self w st sr d lc nc None si ii gi) \<noteq> Inl err"
    using r d c
    by (auto simp: AudioLoader_call_def Let_def postprocess_def signal_duration_def py_index_def
        split: sum.splits option.splits prod.splits if_splits)
  show ?thesis using True d w n by simp
next
  case False
  have "decode_excerpt e w st0 (path info) (AudioSignal_zeros d sr nc) d lc None = (Inl err, st1, w)"
    using False p x by (auto simp: decode_excerpt_def loader_recovers_def)
  then show ?thesis using False r by (simp add: AudioLoader_call_def)
qed

lemma sample_after_failure:
  assumes f: "find_audio_entry (AUDIO_EXTENSIONS e) smp = Some (key, value)"
    and x: "salient_excerpts e value d st lc ne me = (Inl err, st1)"
  shows "decode_sample e w st d lc nc sr ne me rm smp =
           (if stream_recovers err
            then (Skipped, st1,
                  w\<lparr>stdout := stdout w @ [''Error loading audio. Value: '' @ key @ '' Skipping...'']\<rparr>)
            else (Raised err, st1, w))"
  using f x by (auto simp: decode_sample_def stream_recovers_def)

text \<open>
  C7, as the code has it. In \<open>AudioLoader.__call__\<close> without an explicit offset, an exception
  of the excerpt search is replaced by silence and logged exactly when it is a
  LibsndfileError, or a RuntimeError whose message contains the tensor-size text or
  \<open>is empty!\<close>; every other exception leaves the call unchanged. In \<open>decode_audiosignal\<close> the
  entry is skipped with a printed line exactly when the exception is a LibsndfileError, or a
  RuntimeError or ValueError whose message contains the tensor-size text, \<open>is empty!\<close> or
  \<open>array is too big\<close>; every other exception ends the stream.
\<close>

theorem C7_decode_failures:
  "(resolve_item e self st source_idx item_idx global_idx = (Inr (info, s, i), st0)
      \<and> path info \<noteq> ''none''
      \<and> salient_excerpt e (path info) duration st0 loudness_cutoff = (Inl err, st1)
    \<longrightarrow> (if loader_recovers err
         then decode_excerpt e w st0 (path info)
                  (AudioSignal_zeros duration sample_rate num_channels)
                  duration loudness_cutoff None
                = (Inr (AudioSignal_zeros duration sample_rate num_channels), st1,
                   log_corrupt e w (path info))
              \<and> snd (snd (AudioLoader_call e self w st sample_rate duration loudness_cutoff
                             num_channels None source_idx item_idx global_idx))
                  = log_corrupt e w (path info)
              \<and> fst (AudioLoader_call e self w st sample_rate duration loudness_cutoff
                        num_channels None source_idx item_idx global_idx) \<noteq> Inl err
         else AudioLoader_call e self w st sample_rate duration loudness_cutoff
                num_channels None source_idx item_idx global_idx = (Inl err, st1, w)))
   \<and> (find_audio_entry (AUDIO_EXTENSIONS e) smp = Some (key, blob)
      \<and> salient_excerpts e blob duration st' loudness_cutoff num_excerpts max_excerpts
          = (Inl err', st1')
    \<longrightarrow> decode_stream e duration loudness_cutoff num_channels sample_rate num_excerpts
           max_excerpts random_mono_channel w st' (smp # remaining)
         = (if stream_recovers err'
            then decode_stream e duration loudness_cutoff num_channels sample_rate
                   num_excerpts max_excerpts random_mono_channel
                   (w\<lparr>stdout := stdout w
                        @ [''Error loading audio. Value: '' @ key @ '' Skipping...'']\<rparr>)
                   st1' remaining
            else (([], Some err'), st1', w)))"
proof (intro conjI impI)
  assume "resolve_item e self st source_idx item_idx global_idx = (Inr (info, s, i), st0)
      \<and> path info \<noteq> ''none''
      \<and> salient_excerpt e (path info) duration st0 loudness_cutoff = (Inl err, st1)"
  then show "if loader_recovers err
         then decode_excerpt e w st0 (path info)
                  (AudioSignal_zeros duration sample_rate num_channels)
                  duration loudness_cutoff None
                = (Inr (AudioSignal_zeros duration sample_rate num_channels), st1,
                   log_corrupt e w (path info))
              \<and> snd (snd (AudioLoader_call e self w st sample_rate duration loudness_cutoff
                             num_channels None source_idx item_idx global_idx))
                  = log_corrupt e w (path info)
              \<and> fst (AudioLoader_call e self w st sample_rate duration loudness_cutoff
                        num_channels None source_idx item_idx global_idx) \<noteq> Inl err
         else AudioLoader_call e self w st sample_rate duration loudness_cutoff
                num_channels None source_idx item_idx global_idx = (Inl err, st1, w)"
    using call_after_failure [of e self st source_idx item_idx global_idx info s i st0
        duration loudness_cutoff err st1 w sample_rate num_channels]
    by blast
next
  assume a: "find_audio_entry (AUDIO_EXTENSIONS e) smp = Some (key, blob)
      \<and> salient_excerpts e blob duration st' loudness_cutoff num_excerpts max_excerpts
          = (Inl err', st1')"
  have "decode_sample e w st' duration loudness_cutoff num_channels sample_rate num_excerpts
          max_excerpts random_mono_channel smp =
           (if stream_recovers err'
            then (Skipped, st1',
                  w\<lparr>stdout := stdout w @ [''Error loading audio. Value: '' @ key @ '' Skipping...'']\<rparr>)
            else (Raised err', st1', w))"
    using sample_after_failure [OF a [THEN conjunct1] a [THEN conjunct2]] .
  then show "decode_stream e duration loudness_cutoff num_channels sample_rate num_excerpts
           max_excerpts random_mono_channel w st' (smp # remaining)
         = (if stream_recovers err'
            then decode_stream e duration loudness_cutoff num_channels sample_rate
                   num_excerpts max_excerpts random_mono_channel
                   (w\<lparr>stdout := stdout w
                        @ [''Error loading audio. Value: '' @ key @ '' Skipping...'']\<rparr>)
                   st1' remaining
            else (([], Some err'), st1', w))"
    by simp
qed

theorem C7_decode_failures_witness:
  "resolve_item demo_env faulty_loader 0 None None (Some 0)
       = (Inr (track ''corrupt.wav'', 0, 0), 0)
   \<and> path (track ''corrupt.wav'') \<noteq> ''none''
   \<and> salient_excerpt demo_env (path (track ''corrupt.wav'')) (1 / 2) 0 (- 40)
       = (Inl (Exn LibsndfileError ''Error opening corrupt.wav''), 1)
   \<and> loader_recovers (Exn LibsndfileError ''Error opening corrupt.wav'')
   \<and> snd (snd (AudioLoader_call demo_env faulty_loader quiet 0 3 (1 / 2) (- 40) 1
                  None None None (Some 0)))
       = log_corrupt demo_env quiet (path (track ''corrupt.wav''))
   \<and> fst (AudioLoader_call demo_env faulty_loader quiet 0 3 (1 / 2) (- 40) 1
             None None None (Some 0))
       \<noteq> Inl (Exn LibsndfileError ''Error opening corrupt.wav'')
   \<and> resolve_item demo_env faulty_loader 0 None None (Some 1)
       = (Inr (track ''broken.wav'', 0, 1), 0)
   \<and> path (track ''broken.wav'') \<noteq> ''none''
   \<and> salient_excerpt demo_env (path (track ''broken.wav'')) (1 / 2) 0 (- 40)
       = (Inl (Exn OtherError ''disk failure''), 1)
   \<and> \<not> loader_recovers (Exn OtherError ''disk failure'')
   \<and> AudioLoader_call demo_env faulty_loader quiet 0 3 (1 / 2) (- 40) 1
         None None None (Some 1)
       = (Inl (Exn OtherError ''disk failure''), 1, quiet)
   \<and> find_audio_entry (AUDIO_EXTENSIONS demo_env) [(''x.wav'', ''huge'')]
       = Some (''x.wav'', ''huge'')
   \<and> salient_excerpts demo_env ''huge'' (1 / 2) 0 (- 40) 50 None
       = (Inl (Exn ValueError ''array is too big''), 1)
   \<and> stream_recovers (Exn ValueError ''array is too big'')
   \<and> decode_stream demo_env (1 / 2) (- 40) 1 3 50 None False quiet 0
         [[(''x.wav'', ''huge'')], [(''y.wav'', ''bad'')]]
       = decode_stream demo_env (1 / 2) (- 40) 1 3 50 None False
           (quiet\<lparr>stdout := stdout quiet
                     @ [''Error loading audio. Value: '' @ ''x.wav'' @ '' Skipping...'']\<rparr>)
           1 [[(''y.wav'', ''bad'')]]
   \<and> find_audio_entry (AUDIO_EXTENSIONS demo_env) [(''y.wav'', ''bad'')]
       = Some (''y.wav'', ''bad'')
   \<and> salient_excerpts demo_env ''bad'' (1 / 2) 1 (- 40) 50 None
       = (Inl (Exn OtherError ''disk failure''), 2)
   \<and> \<not> stream_recovers (Exn OtherError ''disk failure'')
   \<and> decode_stream demo_env (1 / 2) (- 40) 1 3 50 None False quiet 1 [[(''y.wav'', ''bad'')]]
       = (([], Some (Exn OtherError ''disk failure'')), 2, quiet)"
proof -
  have a1: "resolve_item demo_env faulty_loader 0 None None (Some 0)
       = (Inr (track ''corrupt.wav'', 0, 0), 0)" by code_simp
  have a2: "path (track ''corrupt.wav'') \<noteq> ''none''" by code_simp
  have a3: "salient_excerpt demo_env (path (track ''corrupt.wav'')) (1 / 2) 0 (- 40)
       = (Inl (Exn LibsndfileError ''Error opening corrupt.wav''), 1)" by code_simp
  have a4: "loader_recovers (Exn LibsndfileError ''Error opening corrupt.wav'')"
    by (simp add: loader_recovers_def)
  have b1: "resolve_item demo_env faulty_loader 0 None None (Some 1)
       = (Inr (track ''broken.wav'', 0, 1), 0)" by code_simp
  have b2: "path (track ''broken.wav'') \<noteq> ''none''" by code_simp
  have b3: "salient_excerpt demo_env (path (track ''broken.wav'')) (1 / 2) 0 (- 40)
       = (Inl (Exn OtherError ''disk failure''), 1)" by code_simp
  have b4: "\<not> loader_recovers (Exn OtherError ''disk failure'')"
    by (simp add: loader_recovers_def)
  have c1: "find_audio_entry (AUDIO_EXTENSIONS demo_env) [(''x.wav'', ''huge'')]
       = Some (''x.wav'', ''huge'')" by code_simp
  have c2: "salient_excerpts demo_env ''huge'' (1 / 2) 0 (- 40) 50 None
       = (Inl (Exn ValueError ''array is too big''), 1)" by code_simp
  have c3: "stream_recovers (Exn ValueError ''array is too big'')"
    by (simp add: stream_recovers_def)
  have d1: "find_audio_entry (AUDIO_EXTENSIONS demo_env) [(''y.wav'', ''bad'')]
       = Some (''y.wav'', ''bad'')" by code_simp
  have d2: "salient_excerpts demo_env ''bad'' (1 / 2) 1 (- 40) 50 None
       = (Inl (Exn OtherError ''disk failure''), 2)" by code_simp
  have d3: "\<not> stream_recovers (Exn OtherError ''disk failure'')"
    by (simp add: stream_recovers_def)
  note t1 = C7_decode_failures [where e = demo_env and self = faulty_loader and st = 0
      and source_idx = None and item_idx = None and global_idx = "Some 0"
      and info = "track ''corrupt.wav''" and s = 0 and i = 0 and ?st0.0 = 0
      and duration = "1 / 2" and loudness_cutoff = "- 40"
      and err = "Exn LibsndfileError ''Error opening corrupt.wav''" and ?st1.0 = 1
      and w = quiet and sample_rate = 3 and num_channels = 1
      and smp = "[(''x.wav'', ''huge'')]" and key = "''x.wav''" and blob = "''huge''"
      and st' = 0 and num_excerpts = 50 and max_excerpts = None
      and err' = "Exn ValueError ''array is too big''" and st1' = 1
      and random_mono_channel = False and remaining = "[[(''y.wav'', ''bad'')]]"]
  note t2 = C7_decode_failures [where e = demo_env and self = faulty_loader and st = 0
      and source_idx = None and item_idx = None and global_idx = "Some 1"
      and info = "track ''broken.wav''" and s = 0 and i = 1 and ?st0.0 = 0
      and duration = "1 / 2" and loudness_cutoff = "- 40"
      and err = "Exn OtherError ''disk failure''" and ?st1.0 = 1
      and w = quiet and sample_rate = 3 and num_channels = 1
      and smp = "[(''y.wav'', ''bad'')]" and key = "''y.wav''" and blob = "''bad''"
      and st' = 1 and num_excerpts = 50 and max_excerpts = None
      and err' = "Exn OtherError ''disk failure''" and st1' = 2
      and random_mono_channel = False and remaining = "[]"]
  from t1 t2 a1 a2 a3 a4 b1 b2 b3 b4 c1 c2 c3 d1 d2 d3
  show ?thesis by simp
qed

text \<open>
  The stream skips an entry whose decoding raises ValueError \<open>array is too big\<close>, which is
  none of the three recognized failures named by the specification.
\<close>

theorem C7_array_too_big_counterexample:
  "\<not> recognized_decode_failure (Exn ValueError ''array is too big'')
   \<and> salient_excerpts demo_env ''huge'' (1 / 2) 0 (- 40) 50 None
       = (Inl (Exn ValueError ''array is too big''), 1)
   \<and> decode_audiosignal demo_env quiet
        [[(''x.wav'', ''huge''), (''x.json'', ''{}'')],
         [(''y.wav'', ''fine''), (''y.json'', ''{}'')]]
        None (1 / 2) 0 (- 40) 1 3 50 None False
       = (([([(''y.json'', ''{}'')],
             \<lparr>audio_data = [[[1]]], rate = 3, metadata = [(''offset'', MNum 0)]\<rparr>)], None),
          2, \<lparr>stdout = [''Error loading audio. Value: x.wav Skipping...''],
               corrupt_txt = []\<rparr>)"
  by code_simp

section \<open>Float rounding\<close>

lemma bitlen_rat_bounds:
  assumes "0 < p"
  shows "2 powi (bitlen p - 1) \<le> (of_int p :: rat)" and "(of_int p :: rat) < 2 powi (bitlen p)"
proof -
  have b: "1 \<le> bitlen p" using assms by (auto simp: bitlen_alt_def)
  from bitlen_bounds [OF assms] have 1: "2 ^ nat (bitlen p - 1) \<le> p" and 2: "p < 2 ^ nat (bitlen p)"
    by simp_all
  have "(of_int (2 ^ nat (bitlen p - 1)) :: rat) \<le> of_int p" using 1 by (simp only: of_int_le_iff)
  then show "2 powi (bitlen p - 1) \<le> (of_int p :: rat)"
    using b by (simp add: power_int_def)
  have "(of_int p :: rat) < of_int (2 ^ nat (bitlen p))" using 2 by (simp only: of_int_less_iff)
  then show "(of_int p :: rat) < 2 powi (bitlen p)"
    using b by (simp add: power_int_def)
qed

lemma binade_bounds:
  assumes "0 < x"
  shows "2 powi (binade x) \<le> x" and "x < 2 powi (binade x + 1)"
proof -
  obtain p q where pq: "quotient_of x = (p, q)" by (cases "quotient_of x")
  have q: "0 < q" using pq by (rule quotient_of_denom_pos)
  have x: "x = of_int p / of_int q" using pq by (rule quotient_of_div)
  have p: "0 < p" using assms q x by (simp add: zero_less_divide_iff)
  define c where "c = bitlen p - bitlen q"
  note bp = bitlen_rat_bounds [OF p] and bq = bitlen_rat_bounds [OF q]
  have qpos: "(0::rat) < of_int q" using q by simp
  have lo: "2 powi (c - 1) < x"
  proof -
    have "2 powi (c - 1) = (2 powi (bitlen p - 1) :: rat) / 2 powi (bitlen q)"
      by (simp add: c_def power_int_diff power_int_add)
    also have "\<dots> \<le> of_int p / 2 powi (bitlen q)"
      using bp(1) by (simp add: divide_right_mono)
    also have "\<dots> < of_int p / of_int q"
      using bq(2) p qpos by (simp add: divide_strict_left_mono)
    finally show ?thesis by (simp add: x)
  qed
  have hi: "x < 2 powi (c + 1)"
  proof -
    have "x = of_int p / of_int q" by (rule x)
    also have "\<dots> < 2 powi (bitlen p) / of_int q"
      using bp(2) qpos by (simp add: divide_strict_right_mono)
    also have "\<dots> \<le> 2 powi (bitlen p) / 2 powi (bitlen q - 1)"
      using bq(1) q by (intro divide_left_mono) (simp_all add: zero_less_mult_iff)
    also have "\<dots> = 2 powi (c + 1)"
      by (simp add: c_def power_int_diff power_int_add)
    finally show ?thesis .
  qed
  have k: "binade x = (if 2 powi c \<le> x then c else c - 1)"
    by (simp add: binade_def pq c_def Let_def)
  show "2 powi (binade x) \<le> x"
    using lo by (simp add: k)
  show "x < 2 powi (binade x + 1)"
    using hi by (simp add: k not_le)
qed

lemma py_round_cases: "py_round y = \<lfloor>y\<rfloor> \<or> py_round y = \<lfloor>y\<rfloor> + 1"
  by (simp add: py_round_def Let_def)

lemma py_round_of_int [simp]: "py_round (of_int n) = n"
  by (simp add: py_round_def Let_def)

lemma py_round_upper: "of_int (py_round y) \<le> y + 1 / 2"
proof (cases "y - of_int \<lfloor>y\<rfloor> < 1 / 2")
  case True
  then have p: "py_round y = \<lfloor>y\<rfloor>" by (simp add: py_round_def Let_def)
  show ?thesis unfolding p using of_int_floor_le [of y] by linarith
next
  case False
  have "py_round y \<le> \<lfloor>y\<rfloor> + 1" using py_round_cases [of y] by auto
  then have "(of_int (py_round y) :: rat) \<le> of_int (\<lfloor>y\<rfloor> + 1)"
    by (simp only: of_int_le_iff)
  then show ?thesis using False by simp
qed

lemma py_round_mono:
  assumes "x \<le> y"
  shows "py_round x \<le> py_round y"
proof (cases "\<lfloor>x\<rfloor> < \<lfloor>y\<rfloor>")
  case True
  have "py_round x \<le> \<lfloor>x\<rfloor> + 1" using py_round_cases [of x] by auto
  also have "\<dots> \<le> \<lfloor>y\<rfloor>" using True by simp
  also have "\<dots> \<le> py_round y" using py_round_cases [of y] by auto
  finally show ?thesis .
next
  case False
  then have eq: "\<lfloor>x\<rfloor> = \<lfloor>y\<rfloor>" using assms floor_mono [of x y] by simp
  have "x - of_int \<lfloor>y\<rfloor> \<le> y - of_int \<lfloor>y\<rfloor>" using assms by simp
  then show ?thesis
    by (auto simp: py_round_def Let_def eq)
qed

lemma float_round_pos:
  assumes "0 < x"
  shows "float_round x
           = of_int (py_round (x / 2 powi (binade x - 52))) * 2 powi (binade x - 52)"
  using assms by (simp add: float_round_def Let_def)

lemma float_round_minus: "float_round (- x) = - float_round x"
  by (simp add: float_round_def Let_def sgn_minus)

lemma scaled_range:
  assumes "0 < x"
  shows "2 ^ 52 \<le> x / 2 powi (binade x - 52)" and "x / 2 powi (binade x - 52) < 2 ^ 53"
proof -
  have q: "(0::rat) < 2 powi (binade x - 52)" by simp
  have lo: "2 powi (binade x) = (2 ^ 52 :: rat) * 2 powi (binade x - 52)"
    by (simp add: power_int_diff)
  have hi: "2 powi (binade x + 1) = (2 ^ 53 :: rat) * 2 powi (binade x - 52)"
    by (simp add: power_int_diff power_int_add)
  show "2 ^ 52 \<le> x / 2 powi (binade x - 52)"
    using binade_bounds(1) [OF assms] q by (simp only: lo pos_le_divide_eq)
  show "x / 2 powi (binade x - 52) < 2 ^ 53"
    using binade_bounds(2) [OF assms] q by (simp only: hi pos_divide_less_eq)
qed

lemma float_round_range:
  assumes "0 < x"
  shows "2 powi (binade x) \<le> float_round x" and "float_round x \<le> 2 powi (binade x + 1)"
proof -
  let ?q = "2 powi (binade x - 52) :: rat"
  have q: "0 < ?q" by simp
  have "py_round (of_int (2 ^ 52)) \<le> py_round (x / ?q)"
    using scaled_range(1) [OF assms] by (intro py_round_mono) simp
  then have a: "(2 ^ 52 :: int) \<le> py_round (x / ?q)" by (simp only: py_round_of_int)
  have "py_round (x / ?q) \<le> py_round (of_int (2 ^ 53))"
    using scaled_range(2) [OF assms] by (intro py_round_mono) simp
  then have b: "py_round (x / ?q) \<le> (2 ^ 53 :: int)" by (simp only: py_round_of_int)
  have a': "(2 ^ 52 :: rat) \<le> of_int (py_round (x / ?q))"
    using a by (metis of_int_le_iff of_int_numeral of_int_power)
  have b': "of_int (py_round (x / ?q)) \<le> (2 ^ 53 :: rat)"
    using b by (metis of_int_le_iff of_int_numeral of_int_power)
  have lo: "2 powi (binade x) = (2 ^ 52 :: rat) * ?q"
    by (simp add: power_int_diff)
  have hi: "2 powi (binade x + 1) = (2 ^ 53 :: rat) * ?q"
    by (simp add: power_int_diff power_int_add)
  show "2 powi (binade x) \<le> float_round x"
    unfolding lo float_round_pos [OF assms] using a' q by (intro mult_right_mono) simp_all
  show "float_round x \<le> 2 powi (binade x + 1)"
    unfolding hi float_round_pos [OF assms] using b' q by (intro mult_right_mono) simp_all
qed

lemma binade_mono:
  assumes "0 < x" and "x \<le> y"
  shows "binade x \<le> binade y"
proof -
  have y: "0 < y" using assms by simp
  have lt: "(2::rat) powi (binade x) < 2 powi (binade y + 1)"
    using binade_bounds(1) [OF assms(1)] assms(2) binade_bounds(2) [OF y] by simp
  have "\<not> binade y + 1 \<le> binade x"
  proof
    assume "binade y + 1 \<le> binade x"
    then have "(2::rat) powi (binade y + 1) \<le> 2 powi (binade x)"
      by (intro power_int_increasing) simp_all
    with lt show False by simp
  qed
  then show ?thesis by simp
qed

lemma float_round_mono_pos:
  assumes "0 < x" and "x \<le> y"
  shows "float_round x \<le> float_round y"
proof -
  have y: "0 < y" using assms by simp
  show ?thesis
  proof (cases "binade x = binade y")
    case True
    let ?q = "2 powi (binade y - 52) :: rat"
    have "x / ?q \<le> y / ?q" using assms(2) by (simp add: divide_right_mono)
    then have "py_round (x / ?q) \<le> py_round (y / ?q)" by (rule py_round_mono)
    then have "(of_int (py_round (x / ?q)) :: rat) * ?q \<le> of_int (py_round (y / ?q)) * ?q"
      by (intro mult_right_mono) simp_all
    then show ?thesis
      by (simp only: float_round_pos [OF assms(1)] float_round_pos [OF y] True)
  next
    case False
    then have "binade x + 1 \<le> binade y" using binade_mono [OF assms] by simp
    then have "(2::rat) powi (binade x + 1) \<le> 2 powi (binade y)"
      by (intro power_int_increasing) simp_all
    then show ?thesis
      using float_round_range(2) [OF assms(1)] float_round_range(1) [OF y] by simp
  qed
qed

lemma float_round_pos_pos: "0 < x \<Longrightarrow> 0 < float_round x"
  using float_round_range(1) [of x] zero_less_power_int [of "2::rat" "binade x"]
  by (simp del: zero_less_power_int)

lemma float_round_zero [simp]: "float_round 0 = 0"
  by (simp add: float_round_def)

lemma float_round_mono:
  assumes "x \<le> y"
  shows "float_round x \<le> float_round y"
proof -
  consider "0 < x" | "x \<le> 0" "0 \<le> y" | "y < 0" by linarith
  then show ?thesis
  proof cases
    case 1
    then show ?thesis using assms by (rule float_round_mono_pos)
  next
    case 2
    have "float_round x \<le> 0"
    proof (cases "x = 0")
      case True then show ?thesis by simp
    next
      case False
      then have "0 < - x" using 2 by simp
      from float_round_pos_pos [OF this] show ?thesis by (simp add: float_round_minus)
    qed
    moreover have "0 \<le> float_round y"
    proof (cases "y = 0")
      case True then show ?thesis by simp
    next
      case False
      then have "0 < y" using 2 by simp
      from float_round_pos_pos [OF this] show ?thesis by simp
    qed
    ultimately show ?thesis by simp
  next
    case 3
    then have "0 < - y" "- y \<le> - x" using assms by simp_all
    from float_round_mono_pos [OF this] show ?thesis by (simp add: float_round_minus)
  qed
qed

lemma float_round_error:
  assumes "0 < x"
  shows "float_round x \<le> x * (1 + 1 / 2 ^ 53)"
proof -
  let ?q = "2 powi (binade x - 52) :: rat"
  have q: "0 < ?q" by simp
  have "float_round x \<le> (x / ?q + 1 / 2) * ?q"
    unfolding float_round_pos [OF assms] using py_round_upper [of "x / ?q"] q
    by (intro mult_right_mono) simp_all
  also have "\<dots> = x + ?q / 2" using q by (simp add: algebra_simps)
  also have "?q / 2 = 2 powi (binade x) / 2 ^ 53"
    by (simp add: power_int_diff)
  also have "x + 2 powi (binade x) / 2 ^ 53 \<le> x + x / 2 ^ 53"
    using binade_bounds(1) [OF assms] by (simp add: divide_right_mono)
  also have "\<dots> = x * (1 + 1 / 2 ^ 53)" by (simp add: algebra_simps)
  finally show ?thesis .
qed

lemma float_round_exact:
  assumes "0 < x" and "x / 2 powi (binade x - 52) = of_int n"
  shows "float_round x = x"
  unfolding float_round_pos [OF assms(1)] assms(2) py_round_of_int
  using assms(2) by (simp add: field_simps)

lemma float_round_half_int:
  assumes "0 \<le> m" and "m \<le> 2 ^ 53"
  shows "float_round (of_int m / 2) = of_int m / 2"
proof (cases "m = 0")
  case True
  then show ?thesis by simp
next
  case False
  define x :: rat where "x = of_int m / 2"
  have x: "0 < x" using assms False by (simp add: x_def)
  have xle: "x \<le> 2 ^ 52"
  proof -
    have "(of_int m :: rat) \<le> of_int (2 ^ 53)" using assms(2) by (simp only: of_int_le_iff)
    then show ?thesis by (simp add: x_def)
  qed
  have k: "binade x \<le> 52"
  proof (rule ccontr)
    assume "\<not> binade x \<le> 52"
    then have "53 \<le> binade x" by simp
    then have "(2::rat) powi 53 \<le> 2 powi (binade x)"
      by (intro power_int_increasing) simp_all
    with binade_bounds(1) [OF x] xle show False by simp
  qed
  show ?thesis
  proof (cases "binade x = 52")
    case True
    then have "x = 2 ^ 52" using binade_bounds(1) [OF x] xle by simp
    then have "x / 2 powi (binade x - 52) = of_int (2 ^ 52)" using True by simp
    from float_round_exact [OF x this] show ?thesis by (simp add: x_def)
  next
    case False
    then have le: "0 \<le> 51 - binade x" using k by simp
    have "x / 2 powi (binade x - 52) = x * 2 powi (52 - binade x)"
      by (simp add: power_int_diff field_simps)
    also have "2 powi (52 - binade x) = (2 :: rat) * 2 powi (51 - binade x)"
      by (simp add: power_int_diff)
    also have "x * (2 * 2 powi (51 - binade x)) = of_int m * 2 powi (51 - binade x)"
      by (simp add: x_def)
    also have "\<dots> = of_int (m * 2 ^ nat (51 - binade x))"
      using le by (simp add: power_int_def)
    finally have "x / 2 powi (binade x - 52) = of_int (m * 2 ^ nat (51 - binade x))" .
    from float_round_exact [OF x this] show ?thesis by (simp add: x_def)
  qed
qed

lemma float_round_int:
  assumes "0 \<le> n" and "n \<le> 2 ^ 52"
  shows "float_round (of_int n) = of_int n"
  using float_round_half_int [of "2 * n"] assms by simp

lemma float_of_int_exact:
  assumes "0 \<le> n" and "n \<le> 2 ^ 52"
  shows "float_of_int n = of_int n"
  unfolding float_of_int_def using assms by (rule float_round_int)

lemma py_int_floor: "0 \<le> q \<Longrightarrow> py_int q = \<lfloor>q\<rfloor>"
  by (simp add: py_int_def)

lemma py_int_le:
  assumes "q \<le> of_int n + 1 / 2" and "0 \<le> n"
  shows "py_int q \<le> n"
proof (cases "0 \<le> q")
  case True
  have "\<lfloor>q\<rfloor> \<le> \<lfloor>of_int n + 1 / 2 :: rat\<rfloor>" using assms(1) by (rule floor_mono)
  also have "\<dots> = n" by linarith
  finally show ?thesis using True by (simp add: py_int_def)
next
  case False
  then have "\<lceil>q\<rceil> \<le> 0" by (simp add: ceiling_le_iff)
  then have "\<lceil>q\<rceil> \<le> n" using assms(2) by linarith
  then show ?thesis using False by (simp add: py_int_def)
qed

lemma pad_target_short:
  assumes fd: "float_round d = d" and sr: "0 < sr" and srb: "sr \<le> 2 ^ 52"
    and nb: "int n \<le> 2 ^ 52"
    and short: "int_true_div (int n) sr < d"
  shows "int n \<le> py_int (float_mul d (float_of_int sr))"
proof -
  have fsr: "float_of_int sr = of_int sr" using sr srb by (intro float_of_int_exact) simp_all
  have "\<not> d \<le> of_int (int n) / of_int sr"
  proof
    assume "d \<le> of_int (int n) / of_int sr"
    from float_round_mono [OF this] short fd show False by (simp add: int_true_div_def)
  qed
  then have "of_int (int n) / of_int sr < d" by simp
  then have "of_int (int n) < d * of_int sr" using sr by (simp add: pos_divide_less_eq)
  then have "of_int (int n) \<le> d * of_int sr" by simp
  from float_round_mono [OF this] have le: "of_int (int n) \<le> float_mul d (of_int sr)"
    using float_round_int [of "int n"] nb by (simp add: float_mul_def)
  then have "0 \<le> float_mul d (of_int sr)"
    by (smt (verit) of_int_0_le_iff of_nat_0_le_iff order_trans)
  then show ?thesis using le by (simp add: fsr py_int_def le_floor_iff)
qed

lemma pad_target_long:
  assumes sr: "0 < sr" and srb: "sr \<le> 2 ^ 52"
    and nb: "int n < 2 ^ 52"
    and long: "\<not> int_true_div (int n) sr < d"
  shows "py_int (float_mul d (float_of_int sr)) \<le> int n"
proof -
  have fsr: "float_of_int sr = of_int sr" using sr srb by (intro float_of_int_exact) simp_all
  have d: "d \<le> float_round (of_int (int n) / of_int sr)"
    using long by (simp add: int_true_div_def)
  have srp: "(0::rat) < of_int sr" using sr by simp
  have bound: "d * of_int sr \<le> of_int (int n) + 1 / 2"
  proof (cases "n = 0")
    case True
    then have "d \<le> 0" using d by simp
    then have "d * of_int sr \<le> 0" using srp by (simp add: mult_le_0_iff)
    then show ?thesis using True by simp
  next
    case False
    define x :: rat where "x = of_int (int n) / of_int sr"
    have x: "0 < x" using False srp by (simp add: x_def)
    have "d \<le> x * (1 + 1 / 2 ^ 53)"
      using d float_round_error [OF x] by (simp add: x_def)
    then have "d * of_int sr \<le> x * (1 + 1 / 2 ^ 53) * of_int sr"
      using srp by (simp add: mult_right_mono)
    also have "\<dots> = of_int (int n) * (1 + 1 / 2 ^ 53)"
      using srp by (simp add: x_def)
    also have "\<dots> = of_int (int n) + of_int (int n) / 2 ^ 53"
      by (simp add: algebra_simps)
    also have "\<dots> \<le> of_int (int n) + 1 / 2"
    proof -
      have "int n \<le> 2 ^ 52" using nb by simp
      then have "(of_int (int n) :: rat) \<le> of_int (2 ^ 52)" by (simp only: of_int_le_iff)
      then have "(of_int (int n) :: rat) / 2 ^ 53 \<le> 2 ^ 52 / 2 ^ 53"
        by (intro divide_right_mono) simp_all
      then show ?thesis by simp
    qed
    finally show ?thesis .
  qed
  have half: "float_round (of_int (int n) + 1 / 2) = of_int (int n) + 1 / 2"
  proof -
    have "float_round (of_int (2 * int n + 1) / 2) = of_int (2 * int n + 1) / 2"
      using nb by (intro float_round_half_int) simp_all
    then show ?thesis by (simp add: add_divide_distrib)
  qed
  have "float_mul d (of_int sr) \<le> of_int (int n) + 1 / 2"
    using float_round_mono [OF bound] half by (simp add: float_mul_def)
  then show ?thesis unfolding fsr by (intro py_int_le) simp_all
qed

lemma float_mul_nonneg:
  assumes "0 \<le> d" and "0 \<le> sr"
  shows "0 \<le> float_mul d (float_of_int sr)"
proof -
  have "float_round 0 \<le> float_round (of_int sr)" using assms(2) by (intro float_round_mono) simp
  then have "0 \<le> float_of_int sr" by (simp add: float_of_int_def)
  then have "0 \<le> d * float_of_int sr" using assms(1) by simp
  from float_round_mono [OF this] show ?thesis by (simp add: float_mul_def)
qed


section \<open>Silence and padding\<close>

lemma floor_le_py_round: "\<lfloor>q\<rfloor> \<le> py_round q"
  by (simp add: py_round_def Let_def)

lemma py_int_le_py_round: "0 \<le> q \<Longrightarrow> py_int q \<le> py_round q"
  by (simp add: py_int_def floor_le_py_round)

lemma py_round_nonneg: "0 \<le> q \<Longrightarrow> 0 \<le> py_round q"
  using floor_le_py_round [of q] by (smt (verit) zero_le_floor)

lemma zeros_shape:
  assumes "0 < nc"
  shows "well_shaped (AudioSignal_zeros d sr nc)"
    and "n_channels (AudioSignal_zeros d sr nc) = nat nc"
    and "signal_length (AudioSignal_zeros d sr nc)
           = nat (py_round (float_mul d (float_of_int sr)))"
    and "zero_valued (AudioSignal_zeros d sr nc)"
    and "rate (AudioSignal_zeros d sr nc) = sr"
proof -
  obtain m where m: "nat nc = Suc m" using assms by (cases "nat nc") auto
  show "n_channels (AudioSignal_zeros d sr nc) = nat nc"
    by (simp add: AudioSignal_zeros_def n_channels_def)
  show "signal_length (AudioSignal_zeros d sr nc)
          = nat (py_round (float_mul d (float_of_int sr)))"
    by (simp add: AudioSignal_zeros_def signal_length_def m)
  then show "well_shaped (AudioSignal_zeros d sr nc)"
    by (simp add: well_shaped_def n_channels_def AudioSignal_zeros_def m list_all_length nth_Cons split: nat.splits)
  show "zero_valued (AudioSignal_zeros d sr nc)"
    by (simp add: zero_valued_def AudioSignal_zeros_def list_all_length)
  show "rate (AudioSignal_zeros d sr nc) = sr"
    by (simp add: AudioSignal_zeros_def)
qed

lemma zero_pad_to_noop:
  "n \<le> int (signal_length s) \<Longrightarrow> zero_pad_to s n = s"
  by (simp add: zero_pad_to_def map_idI)

lemma zero_pad_to_shape:
  assumes "well_shaped s"
  shows "well_shaped (zero_pad_to s n)"
    and "signal_length (zero_pad_to s n) = max (signal_length s) (nat n)"
    and "n_channels (zero_pad_to s n) = n_channels s"
    and "rate (zero_pad_to s n) = rate s"
proof -
  obtain b bs where b: "audio_data s = b # bs" using assms by (cases "audio_data s") (auto simp: well_shaped_def)
  obtain c cs where c: "b = c # cs" using assms b by (cases b) (auto simp: well_shaped_def)
  have lc: "length c = signal_length s" by (simp add: signal_length_def b c)
  show sl: "signal_length (zero_pad_to s n) = max (signal_length s) (nat n)"
    using lc by (auto simp: zero_pad_to_def signal_length_def b c nat_diff_distrib')
  show nc: "n_channels (zero_pad_to s n) = n_channels s"
    by (simp add: zero_pad_to_def n_channels_def b)
  show "rate (zero_pad_to s n) = rate s" by (simp add: zero_pad_to_def)
  show "well_shaped (zero_pad_to s n)"
    unfolding well_shaped_def sl nc using assms
    by (auto simp: well_shaped_def zero_pad_to_def list_all_iff nat_diff_distrib')
qed

lemma postprocess_ok:
  assumes ok: "codec_ok e" and x: "well_shaped x" and sr: "0 < sr"
    and r_def: "r = resample e (if nc = 1 then to_mono e x else x) sr"
  shows "well_shaped r" and "rate r = sr"
    and "postprocess e x sr d nc =
           Inr (if int_true_div (int (signal_length r)) sr < d
                then zero_pad_to r (py_int (float_mul d (float_of_int sr))) else r)"
proof -
  have m: "well_shaped (if nc = 1 then to_mono e x else x)"
    using ok x by (simp add: codec_ok_def)
  show ws: "well_shaped r" and rt: "rate r = sr"
    using ok m unfolding r_def by (simp_all add: codec_ok_def)
  show "postprocess e x sr d nc =
           Inr (if int_true_div (int (signal_length r)) sr < d
                then zero_pad_to r (py_int (float_mul d (float_of_int sr))) else r)"
    using rt sr unfolding r_def
    by (simp add: postprocess_def Let_def signal_duration_def)
qed

lemma padded_length:
  assumes ws: "well_shaped r" and sr: "0 < sr" and srb: "sr \<le> 2 ^ 52"
    and fd: "float_round d = d" and nb: "int (signal_length r) < 2 ^ 52"
    and y_def: "y = (if int_true_div (int (signal_length r)) sr < d
                then zero_pad_to r (py_int (float_mul d (float_of_int sr))) else r)"
  shows "py_int (float_mul d (float_of_int sr)) \<le> int (signal_length y)"
    and "int_true_div (int (signal_length r)) sr < d \<longrightarrow>
           int (signal_length y) = py_int (float_mul d (float_of_int sr))"
    and "audio_data y
           = map (map (\<lambda>c. c @ replicate (nat (py_int (float_mul d (float_of_int sr)))
                                            - signal_length r) 0)) (audio_data r)"
proof -
  let ?n = "py_int (float_mul d (float_of_int sr))"
  have nb': "int (signal_length r) \<le> 2 ^ 52" using nb by simp
  have short: "int (signal_length r) \<le> ?n"
    if "int_true_div (int (signal_length r)) sr < d"
    using fd sr srb nb' that by (rule pad_target_short)
  have long: "?n \<le> int (signal_length r)"
    if "\<not> int_true_div (int (signal_length r)) sr < d"
    using sr srb nb that by (rule pad_target_long)
  show "?n \<le> int (signal_length y)"
    using short long zero_pad_to_shape(2) [OF ws, of ?n] unfolding y_def by auto
  show "int_true_div (int (signal_length r)) sr < d \<longrightarrow> int (signal_length y) = ?n"
    using short zero_pad_to_shape(2) [OF ws, of ?n] unfolding y_def by auto
  show "audio_data y
           = map (map (\<lambda>c. c @ replicate (nat ?n - signal_length r) 0)) (audio_data r)"
  proof (cases "int_true_div (int (signal_length r)) sr < d")
    case True
    then show ?thesis using short unfolding y_def by (simp add: zero_pad_to_def nat_diff_distrib')
  next
    case False
    then have "nat ?n - signal_length r = 0" using long by simp
    then show ?thesis using False unfolding y_def by (simp add: map_idI)
  qed
qed

lemma call_parts:
  assumes "AudioLoader_call e self w st sr d lc nc off si ii gi = (Inr smp, st', w')"
  shows "\<exists>info s i st0 x st1 w1 y.
           resolve_item e self st si ii gi = (Inr (info, s, i), st0)
         \<and> decode_excerpt e w st0 (path info) (AudioSignal_zeros d sr nc) d lc off
             = (Inr x, st1, w1)
         \<and> postprocess e x sr d nc = Inr y
         \<and> out_signal smp = y\<lparr>metadata := dict_update (metadata y) (item_items info)\<rparr>
         \<and> out_path smp = path info"
  using assms
  by (auto simp: AudioLoader_call_def Let_def split: prod.splits sum.splits option.splits)

lemma decode_excerpt_shape:
  assumes ok: "codec_ok e" and nc: "0 < nc"
    and dec: "decode_excerpt e w st0 p (AudioSignal_zeros d sr nc) d lc off = (Inr x, st1, w1)"
  shows "well_shaped x" and "p = ''none'' \<longrightarrow> x = AudioSignal_zeros d sr nc"
proof -
  have z: "well_shaped (AudioSignal_zeros d sr nc)" using nc by (rule zeros_shape)
  have se: "\<And>p d st c s st'. salient_excerpt e p d st c = (Inr s, st') \<Longrightarrow> well_shaped s"
    using ok unfolding codec_ok_def by blast
  have ld: "\<And>p off d s. load_signal e p off d = Inr s \<Longrightarrow> well_shaped s"
    using ok unfolding codec_ok_def by blast
  show "well_shaped x"
    using dec z se ld
    by (auto simp: decode_excerpt_def split: if_splits option.splits prod.splits sum.splits)
  show "p = ''none'' \<longrightarrow> x = AudioSignal_zeros d sr nc"
    using dec by (auto simp: decode_excerpt_def)
qed

lemma shape_ignores_metadata:
  "well_shaped (s\<lparr>metadata := m\<rparr>) = well_shaped s"
  "signal_length (s\<lparr>metadata := m\<rparr>) = signal_length s"
  "n_channels (s\<lparr>metadata := m\<rparr>) = n_channels s"
  "zero_valued (s\<lparr>metadata := m\<rparr>) = zero_valued s"
  by (simp_all add: well_shaped_def signal_length_def n_channels_def zero_valued_def)

lemma silence_postprocess:
  assumes ok: "codec_ok e" and nc: "0 < nc" and sr: "0 < sr" and d: "0 \<le> d"
  shows "postprocess e (AudioSignal_zeros d sr nc) sr d nc = Inr (AudioSignal_zeros d sr nc)"
proof -
  let ?z = "AudioSignal_zeros d sr nc"
  let ?t = "float_mul d (float_of_int sr)"
  have ws: "well_shaped ?z" using nc by (rule zeros_shape)
  have mono: "(if nc = 1 then to_mono e ?z else ?z) = ?z"
    using ok ws zeros_shape(2) [OF nc, of d sr] by (auto simp: codec_ok_def)
  have res: "resample e ?z sr = ?z"
    using ok ws zeros_shape(5) [OF nc, of d sr] by (auto simp: codec_ok_def)
  have q: "0 \<le> ?t" using d sr by (intro float_mul_nonneg) simp_all
  have "py_int ?t \<le> int (signal_length ?z)"
    using py_int_le_py_round [OF q] py_round_nonneg [OF q] zeros_shape(3) [OF nc, of d sr]
    by simp
  then have pad: "zero_pad_to ?z (py_int ?t) = ?z" by (rule zero_pad_to_noop)
  have r: "?z = resample e (if nc = 1 then to_mono e ?z else ?z) sr"
    using mono res by simp
  show ?thesis
    using postprocess_ok(3) [OF ok ws sr r, of d] pad by simp
qed

text \<open>
  C5, as the code has it, in float arithmetic. With a codec that meets \<open>codec_ok\<close>, a sample
  rate from 1 to \<open>2^52\<close>, at least one channel and a duration that is a float, for every
  sample that \<open>AudioLoader.__call__\<close> returns: if the item is a sentinel and the duration is
  not negative, the signal is zero-valued with exactly \<open>round(duration*sample_rate)\<close>
  samples, \<open>num_channels\<close> channels and rate \<open>sample_rate\<close>; and when the downmixed and
  resampled excerpt has fewer than \<open>2^52\<close> samples, the signal has at least
  \<open>int(duration*sample_rate)\<close> samples, it is that excerpt with zeros appended to each
  channel, and when the excerpt's duration is below \<open>duration\<close> the final length is exactly
  \<open>int(duration*sample_rate)\<close>.
\<close>

theorem C5_silence_and_padding:
  assumes ok: "codec_ok e" and sr: "0 < sample_rate" and srb: "sample_rate \<le> 2 ^ 52"
    and nc: "0 < num_channels" and fd: "float_round duration = duration"
    and call: "AudioLoader_call e self w st sample_rate duration loudness_cutoff num_channels
                 offset source_idx item_idx global_idx = (Inr smp, st', w')"
  shows "(out_path smp = ''none'' \<and> 0 \<le> duration \<longrightarrow>
            zero_valued (out_signal smp)
          \<and> int (signal_length (out_signal smp))
              = py_round (float_mul duration (float_of_int sample_rate))
          \<and> int (n_channels (out_signal smp)) = num_channels
          \<and> rate (out_signal smp) = sample_rate)
       \<and> (\<exists>info s i st0 x st1 w1 r.
             resolve_item e self st source_idx item_idx global_idx = (Inr (info, s, i), st0)
           \<and> decode_excerpt e w st0 (path info)
                 (AudioSignal_zeros duration sample_rate num_channels)
                 duration loudness_cutoff offset = (Inr x, st1, w1)
           \<and> r = resample e (if num_channels = 1 then to_mono e x else x) sample_rate
           \<and> (int (signal_length r) < 2 ^ 52 \<longrightarrow>
                 py_int (float_mul duration (float_of_int sample_rate))
                   \<le> int (signal_length (out_signal smp))
               \<and> audio_data (out_signal smp)
                   = map (map (\<lambda>c. c @ replicate
                            (nat (py_int (float_mul duration (float_of_int sample_rate)))
                               - signal_length r) 0)) (audio_data r)
               \<and> (int_true_div (int (signal_length r)) sample_rate < duration \<longrightarrow>
                     int (signal_length (out_signal smp))
                       = py_int (float_mul duration (float_of_int sample_rate)))))"
proof -
  let ?t = "py_int (float_mul duration (float_of_int sample_rate))"
  from call_parts [OF call] obtain info s i st0 x st1 w1 y where
      res: "resolve_item e self st source_idx item_idx global_idx = (Inr (info, s, i), st0)"
    and dec: "decode_excerpt e w st0 (path info)
              (AudioSignal_zeros duration sample_rate num_channels)
              duration loudness_cutoff offset = (Inr x, st1, w1)"
    and post: "postprocess e x sample_rate duration num_channels = Inr y"
    and sig: "out_signal smp = y\<lparr>metadata := dict_update (metadata y) (item_items info)\<rparr>"
    and pth: "out_path smp = path info"
    by blast
  define r where "r = resample e (if num_channels = 1 then to_mono e x else x) sample_rate"
  have wx: "well_shaped x" using decode_excerpt_shape(1) [OF ok nc dec] .
  have wr: "well_shaped r" and rr: "rate r = sample_rate"
    using postprocess_ok(1,2) [OF ok wx sr r_def] by simp_all
  have y: "y = (if int_true_div (int (signal_length r)) sample_rate < duration
                then zero_pad_to r ?t else r)"
    using postprocess_ok(3) [OF ok wx sr r_def, of duration] post by simp
  have padded: "?t \<le> int (signal_length (out_signal smp))
               \<and> audio_data (out_signal smp)
                   = map (map (\<lambda>c. c @ replicate (nat ?t - signal_length r) 0)) (audio_data r)
               \<and> (int_true_div (int (signal_length r)) sample_rate < duration \<longrightarrow>
                     int (signal_length (out_signal smp)) = ?t)"
    if nb: "int (signal_length r) < 2 ^ 52"
  proof -
    note pl = padded_length [OF wr sr srb fd nb y]
    have len: "?t \<le> int (signal_length (out_signal smp))"
      using pl(1) by (simp add: sig shape_ignores_metadata)
    have fill: "audio_data (out_signal smp)
                   = map (map (\<lambda>c. c @ replicate (nat ?t - signal_length r) 0)) (audio_data r)"
      using pl(3) by (simp add: sig)
    have exact: "int_true_div (int (signal_length r)) sample_rate < duration \<longrightarrow>
                   int (signal_length (out_signal smp)) = ?t"
      using pl(2) by (simp add: sig shape_ignores_metadata)
    from len fill exact show ?thesis by (intro conjI)
  qed
  have silent: "zero_valued (out_signal smp)
          \<and> int (signal_length (out_signal smp))
              = py_round (float_mul duration (float_of_int sample_rate))
          \<and> int (n_channels (out_signal smp)) = num_channels
          \<and> rate (out_signal smp) = sample_rate"
    if none: "out_path smp = ''none''" and d: "0 \<le> duration"
  proof -
    have xz: "x = AudioSignal_zeros duration sample_rate num_channels"
      using decode_excerpt_shape(2) [OF ok nc dec] none pth by simp
    have yz: "y = AudioSignal_zeros duration sample_rate num_channels"
      using silence_postprocess [OF ok nc sr d] post xz by simp
    have q: "0 \<le> float_mul duration (float_of_int sample_rate)"
      using d sr by (intro float_mul_nonneg) simp_all
    show ?thesis
      using zeros_shape [OF nc, of duration sample_rate] py_round_nonneg [OF q] nc
      by (simp add: sig yz shape_ignores_metadata)
  qed
  have parts: "resolve_item e self st source_idx item_idx global_idx = (Inr (info, s, i), st0)
           \<and> decode_excerpt e w st0 (path info)
                 (AudioSignal_zeros duration sample_rate num_channels)
                 duration loudness_cutoff offset = (Inr x, st1, w1)
           \<and> r = resample e (if num_channels = 1 then to_mono e x else x) sample_rate
           \<and> (int (signal_length r) < 2 ^ 52 \<longrightarrow>
                 ?t \<le> int (signal_length (out_signal smp))
               \<and> audio_data (out_signal smp)
                   = map (map (\<lambda>c. c @ replicate (nat ?t - signal_length r) 0)) (audio_data r)
               \<and> (int_true_div (int (signal_length r)) sample_rate < duration \<longrightarrow>
                     int (signal_length (out_signal smp)) = ?t))"
    using res dec r_def padded by blast
  have ex: "\<exists>info s i st0 x st1 w1 r.
             resolve_item e self st source_idx item_idx global_idx = (Inr (info, s, i), st0)
           \<and> decode_excerpt e w st0 (path info)
                 (AudioSignal_zeros duration sample_rate num_channels)
                 duration loudness_cutoff offset = (Inr x, st1, w1)
           \<and> r = resample e (if num_channels = 1 then to_mono e x else x) sample_rate
           \<and> (int (signal_length r) < 2 ^ 52 \<longrightarrow>
                 ?t \<le> int (signal_length (out_signal smp))
               \<and> audio_data (out_signal smp)
                   = map (map (\<lambda>c. c @ replicate (nat ?t - signal_length r) 0)) (audio_data r)
               \<and> (int_true_div (int (signal_length r)) sample_rate < duration \<longrightarrow>
                     int (signal_length (out_signal smp)) = ?t))"
    by (intro exI) (rule parts)
  from silent have first: "out_path smp = ''none'' \<and> 0 \<le> duration \<longrightarrow>
            zero_valued (out_signal smp)
          \<and> int (signal_length (out_signal smp))
              = py_round (float_mul duration (float_of_int sample_rate))
          \<and> int (n_channels (out_signal smp)) = num_channels
          \<and> rate (out_signal smp) = sample_rate"
    by blast
  from first ex show ?thesis by (intro conjI)
qed

lemma one_channel_take:
  assumes "well_shaped s" and "n_channels s = Suc 0"
  shows "map (take (Suc 0)) (audio_data s) = audio_data s"
proof (rule map_idI)
  fix b assume "b \<in> set (audio_data s)"
  then have "length b = Suc 0" using assms by (auto simp: well_shaped_def list_all_iff)
  then show "take (Suc 0) b = b" by simp
qed

lemma take_one_shape:
  assumes "well_shaped s"
  shows "well_shaped (s\<lparr>audio_data := map (take (Suc 0)) (audio_data s)\<rparr>)"
proof -
  obtain b bs where b: "audio_data s = b # bs"
    using assms by (cases "audio_data s") (auto simp: well_shaped_def)
  obtain c cs where c: "b = c # cs" using assms b by (cases b) (auto simp: well_shaped_def)
  have rows: "b' \<noteq> [] \<and> (\<forall>c' \<in> set b'. length c' = length c)"
    if "b' \<in> set (audio_data s)" for b'
    using assms that by (auto simp: well_shaped_def list_all_iff signal_length_def b c)
  have one: "length (take (Suc 0) b') = Suc 0" if "b' \<in> set (audio_data s)" for b'
    using rows [OF that] by (cases b') auto
  have sub: "\<forall>c' \<in> set (take (Suc 0) b'). length c' = length c"
    if "b' \<in> set (audio_data s)" for b'
    using rows [OF that] by (auto dest: in_set_takeD)
  have ne: "take (Suc 0) b' \<noteq> []" if "b' \<in> set (audio_data s)" for b'
    using one [OF that] by auto
  have hd_row: "signal_length (s\<lparr>audio_data := map (take (Suc 0)) (audio_data s)\<rparr>) = length c"
    by (simp add: signal_length_def b c)
  have chans: "n_channels (s\<lparr>audio_data := map (take (Suc 0)) (audio_data s)\<rparr>) = Suc 0"
    by (simp add: n_channels_def b c)
  show ?thesis
    unfolding well_shaped_def hd_row chans list_all_iff
    using one sub ne b by auto
qed

lemma codec_ok_demo_env: "codec_ok demo_env"
proof -
  have ws1: "well_shaped one_sample"
    by (simp add: one_sample_def well_shaped_def n_channels_def signal_length_def)
  have ws2: "\<And>m. well_shaped (one_sample\<lparr>metadata := m\<rparr>)"
    using ws1 by (simp add: shape_ignores_metadata)
  have rate_shape: "\<And>s r. well_shaped (s\<lparr>rate := r\<rparr>) = well_shaped s"
    by (simp add: well_shaped_def signal_length_def n_channels_def)
  show ?thesis
    unfolding codec_ok_def demo_env_def
    using ws1 ws2
    by (auto simp: take_one_shape one_channel_take rate_shape shape_ignores_metadata
        split: if_splits)
qed

theorem C5_silence_and_padding_witness:
  "codec_ok demo_env \<and> (0::int) < 3 \<and> (3::int) \<le> 2 ^ 52 \<and> (0::int) < 1
   \<and> float_round (1 / 2) = 1 / 2
   \<and> AudioLoader_call demo_env demo_loader quiet 0 3 (1 / 2) (- 40) 1
         None (Some 1) (Some 5) None = (Inr silent_sample, 0, quiet)
   \<and> out_path silent_sample = ''none'' \<and> (0::rat) \<le> 1 / 2
   \<and> zero_valued (out_signal silent_sample)
   \<and> int (signal_length (out_signal silent_sample))
       = py_round (float_mul (1 / 2) (float_of_int 3))
   \<and> py_round (float_mul (1 / 2) (float_of_int 3)) = 2
   \<and> int (n_channels (out_signal silent_sample)) = 1
   \<and> rate (out_signal silent_sample) = 3
   \<and> (0::int) < 100 \<and> (100::int) \<le> 2 ^ 52
   \<and> float_round (float_round (29 / 100)) = float_round (29 / 100)
   \<and> AudioLoader_call demo_env demo_loader quiet 0 100 (float_round (29 / 100)) (- 40) 1
         None None None (Some 0) = (Inr padded_sample, 1, quiet)
   \<and> int (signal_length (resample demo_env (to_mono demo_env one_sample) 100)) < 2 ^ 52
   \<and> int_true_div (int (signal_length (resample demo_env (to_mono demo_env one_sample) 100)))
         100 < float_round (29 / 100)
   \<and> int (signal_length (out_signal padded_sample))
       = py_int (float_mul (float_round (29 / 100)) (float_of_int 100))
   \<and> py_int (float_mul (float_round (29 / 100)) (float_of_int 100)) = 28"
proof -
  have c: "AudioLoader_call demo_env demo_loader quiet 0 3 (1 / 2) (- 40) 1
         None (Some 1) (Some 5) None = (Inr silent_sample, 0, quiet)"
    by code_simp
  have p: "out_path silent_sample = ''none''" by (simp add: silent_sample_def)
  have sr: "(0::int) < 3" and srb: "(3::int) \<le> 2 ^ 52" and nc: "(0::int) < 1"
    and d: "(0::rat) \<le> 1 / 2" by simp_all
  have fd: "float_round (1 / 2) = 1 / 2" by code_simp
  have two: "py_round (float_mul (1 / 2) (float_of_int 3)) = 2" by code_simp
  note t = C5_silence_and_padding [OF codec_ok_demo_env sr srb nc fd c]
  note silent = t [THEN conjunct1]
  have c': "AudioLoader_call demo_env demo_loader quiet 0 100 (float_round (29 / 100)) (- 40) 1
         None None None (Some 0) = (Inr padded_sample, 1, quiet)"
    by code_simp
  have sr': "(0::int) < 100" and srb': "(100::int) \<le> 2 ^ 52" by simp_all
  have fd': "float_round (float_round (29 / 100)) = float_round (29 / 100)" by code_simp
  have nb: "int (signal_length (resample demo_env (to_mono demo_env one_sample) 100)) < 2 ^ 52"
    by code_simp
  have short: "int_true_div
       (int (signal_length (resample demo_env (to_mono demo_env one_sample) 100))) 100
         < float_round (29 / 100)"
    by code_simp
  have target: "py_int (float_mul (float_round (29 / 100)) (float_of_int 100)) = 28"
    by code_simp
  have res': "resolve_item demo_env demo_loader 0 None None (Some 0)
                = (Inr (track ''c.wav'', 1, 0), 0)"
    by code_simp
  have dec': "decode_excerpt demo_env quiet 0 (path (track ''c.wav''))
                (AudioSignal_zeros (float_round (29 / 100)) 100 1)
                (float_round (29 / 100)) (- 40) None = (Inr one_sample, 1, quiet)"
    by code_simp
  note t' = C5_silence_and_padding [OF codec_ok_demo_env sr' srb' nc fd' c']
  from t' [THEN conjunct2] obtain info s i st0 x st1 w1 r where
      res: "resolve_item demo_env demo_loader 0 None None (Some 0) = (Inr (info, s, i), st0)"
    and dec: "decode_excerpt demo_env quiet st0 (path info)
                (AudioSignal_zeros (float_round (29 / 100)) 100 1)
                (float_round (29 / 100)) (- 40) None = (Inr x, st1, w1)"
    and r: "r = resample demo_env (if (1::int) = 1 then to_mono demo_env x else x) 100"
    and pad: "int (signal_length r) < 2 ^ 52 \<longrightarrow>
                py_int (float_mul (float_round (29 / 100)) (float_of_int 100))
                  \<le> int (signal_length (out_signal padded_sample))
              \<and> audio_data (out_signal padded_sample)
                  = map (map (\<lambda>c. c @ replicate
                           (nat (py_int (float_mul (float_round (29 / 100)) (float_of_int 100)))
                              - signal_length r) 0)) (audio_data r)
              \<and> (int_true_div (int (signal_length r)) 100 < float_round (29 / 100) \<longrightarrow>
                    int (signal_length (out_signal padded_sample))
                      = py_int (float_mul (float_round (29 / 100)) (float_of_int 100)))"
    by blast
  from res res' have "info = track ''c.wav''" and "st0 = 0" by simp_all
  with dec dec' have "x = one_sample" by simp
  with r have r': "r = resample demo_env (to_mono demo_env one_sample) 100" by simp
  from pad nb short have len: "int (signal_length (out_signal padded_sample))
       = py_int (float_mul (float_round (29 / 100)) (float_of_int 100))"
    unfolding r' by blast
  from silent p d c fd two codec_ok_demo_env c' fd' nb short len target
  show ?thesis by simp
qed

text \<open>
  A file of one sample at rate 3, duration 1/2: the code pads to \<open>int(1.5) = 1\<close> sample,
  fewer than \<open>round(1.5) = 2\<close>. The same file at rate 100 and the float duration 0.29: the
  float product is below 29, the code pads to 28 samples, fewer than the rounded 29.
\<close>

theorem C5_round_counterexample:
  "(case fst (AudioLoader_call demo_env demo_loader quiet 0 3 (1 / 2) (- 40) 1
               None None None (Some 0)) of
      Inl err \<Rightarrow> False
    | Inr smp \<Rightarrow> int (signal_length (out_signal smp)) = 1
                \<and> int (signal_length (out_signal smp))
                    < py_round (float_mul (1 / 2) (float_of_int 3)))
   \<and> py_round (float_mul (1 / 2) (float_of_int 3)) = 2
   \<and> py_int (float_mul (1 / 2) (float_of_int 3)) = 1
   \<and> (case fst (AudioLoader_call demo_env demo_loader quiet 0 100 (float_round (29 / 100))
                   (- 40) 1 None None None (Some 0)) of
        Inl err \<Rightarrow> False
      | Inr smp \<Rightarrow> int (signal_length (out_signal smp)) = 28
                  \<and> int (signal_length (out_signal smp))
                      < py_round (float_mul (float_round (29 / 100)) (float_of_int 100)))
   \<and> py_round (float_mul (float_round (29 / 100)) (float_of_int 100)) = 29
   \<and> py_int (float_mul (float_round (29 / 100)) (float_of_int 100)) = 28"
  by code_simp

section \<open>Alignment of catalogs\<close>

lemma align_one_length: "i \<le> length l \<Longrightarrow> i < length (align_one m i x l)"
  by (auto simp: align_one_def)

lemma align_one_before:
  "j < i \<Longrightarrow> i \<le> length l \<Longrightarrow> align_one m i x l ! j = l ! j"
  by (auto simp: align_one_def nth_append)

lemma align_one_at:
  "i \<le> length l \<Longrightarrow>
     path (align_one m i x l ! i) = ''none'' \<or> m (path (align_one m i x l ! i)) (path x)"
  by (auto simp: align_one_def nth_append sentinel_def)

lemma align_one_reference:
  "i < length l \<Longrightarrow>
     path (align_one m i (l ! i) l ! i) = ''none'' \<or> align_one m i (l ! i) l ! i = l ! i"
  by (auto simp: align_one_def nth_append sentinel_def)

lemma aligned_upto_step:
  assumes inv: "aligned_upto m k i cs" and k: "k < length cs" and i: "i < length (cs ! k)"
  shows "aligned_upto m k (Suc i) (map (align_one m i (cs ! k ! i)) cs)"
proof -
  let ?x = "cs ! k ! i"
  let ?cs' = "map (align_one m i ?x) cs"
  have len: "i \<le> length l" if "l \<in> set cs" for l
    using inv that by (simp add: aligned_upto_def)
  have old: "path (l ! j) = ''none'' \<or> path (cs ! k ! j) = ''none''
             \<or> m (path (l ! j)) (path (cs ! k ! j))" if "j < i" "l \<in> set cs" for j l
    using inv that by (simp add: aligned_upto_def)
  have ref: "?cs' ! k = align_one m i ?x (cs ! k)" using k by simp
  have refk: "cs ! k \<in> set cs" using k by simp
  have a: "Suc i \<le> length l'" if "l' \<in> set ?cs'" for l'
    using that align_one_length [of i _ m ?x] len by (auto simp: Suc_le_eq)
  have b: "path (l' ! j) = ''none'' \<or> path (?cs' ! k ! j) = ''none''
           \<or> m (path (l' ! j)) (path (?cs' ! k ! j))"
    if j: "j < Suc i" and l': "l' \<in> set ?cs'" for j l'
  proof -
    from l' obtain l where l: "l \<in> set cs" and eq: "l' = align_one m i ?x l" by auto
    show ?thesis
    proof (cases "j < i")
      case True
      have "l' ! j = l ! j" using True len [OF l] eq by (simp add: align_one_before)
      moreover have "?cs' ! k ! j = cs ! k ! j"
        using True len [OF refk] ref by (simp add: align_one_before)
      ultimately show ?thesis using old [OF True l] by simp
    next
      case False
      then have ji: "j = i" using j by simp
      have 1: "path (l' ! i) = ''none'' \<or> m (path (l' ! i)) (path ?x)"
        unfolding eq using len [OF l] by (rule align_one_at)
      have 2: "path (?cs' ! k ! i) = ''none'' \<or> ?cs' ! k ! i = ?x"
        unfolding ref using i by (rule align_one_reference)
      from 1 2 show ?thesis unfolding ji by auto
    qed
  qed
  show ?thesis unfolding aligned_upto_def using a b by blast
qed

lemma align_loop_result:
  assumes run: "align_loop m k i cs = Some r"
  shows "k < length cs \<longrightarrow> aligned_upto m k i cs \<longrightarrow>
           length r = length cs \<and> aligned_upto m k (length (r ! k)) r"
proof (rule align_loop.raw_induct
    [where P = "\<lambda>m k i cs r. k < length cs \<longrightarrow> aligned_upto m k i cs \<longrightarrow>
           length r = length cs \<and> aligned_upto m k (length (r ! k)) r", OF _ run])
  fix loop m k i cs r
  assume IH: "\<And>m k i cs r. loop m k i cs = Some r \<Longrightarrow>
                k < length cs \<longrightarrow> aligned_upto m k i cs \<longrightarrow>
                length r = length cs \<and> aligned_upto m k (length (r ! k)) r"
    and eq: "(if i < length (cs ! k)
              then loop m k (Suc i) (map (align_one m i (cs ! k ! i)) cs)
              else Some cs) = Some r"
  show "k < length cs \<longrightarrow> aligned_upto m k i cs \<longrightarrow>
           length r = length cs \<and> aligned_upto m k (length (r ! k)) r"
  proof (intro impI)
    assume k: "k < length cs" and inv: "aligned_upto m k i cs"
    show "length r = length cs \<and> aligned_upto m k (length (r ! k)) r"
    proof (cases "i < length (cs ! k)")
      case True
      then have "loop m k (Suc i) (map (align_one m i (cs ! k ! i)) cs) = Some r"
        using eq by simp
      from IH [OF this] aligned_upto_step [OF inv k True] k
      show ?thesis by simp
    next
      case False
      then have r: "r = cs" using eq by simp
      have "i \<le> length (cs ! k)" using inv k by (simp add: aligned_upto_def)
      then have "i = length (cs ! k)" using False by simp
      then show ?thesis using inv r by simp
    qed
  qed
qed

lemma first_position_less:
  "x \<in> set xs \<Longrightarrow> length (takeWhile (\<lambda>n. n \<noteq> x) xs) < length xs"
  by (induction xs) auto

lemma argmax_len_less: "cs \<noteq> [] \<Longrightarrow> argmax_len cs < length cs"
proof -
  assume ne: "cs \<noteq> []"
  have "Max (set (map length cs)) \<in> set (map length cs)"
    using ne by (intro Max_in) auto
  then have "length (takeWhile (\<lambda>n. n \<noteq> Max (set (map length cs))) (map length cs))
             < length (map length cs)"
    by (rule first_position_less)
  then show ?thesis by (simp add: argmax_len_def Let_def)
qed

lemma align_loop_returns:
  assumes refl: "\<And>x. m x x" and k: "k < length cs"
  shows "\<exists>r. align_loop m k i cs = Some r"
  using k
proof (induction "length (cs ! k) - i" arbitrary: i cs)
  case 0
  then have "\<not> i < length (cs ! k)" by simp
  then show ?case by (subst align_loop.simps) simp
next
  case (Suc n)
  then have lt: "i < length (cs ! k)" by simp
  let ?cs' = "map (align_one m i (cs ! k ! i)) cs"
  have same: "?cs' ! k = cs ! k"
    using Suc.prems lt refl by (simp add: align_one_def)
  have "n = length (?cs' ! k) - Suc i" using Suc.hyps(2) same by simp
  moreover have "k < length ?cs'" using Suc.prems by simp
  ultimately obtain r where "align_loop m k (Suc i) ?cs' = Some r"
    using Suc.hyps(1) by blast
  then show ?case using lt by (subst align_loop.simps) simp
qed

lemma align_lists_returns:
  assumes "\<And>x. m x x" and "catalogs \<noteq> []"
  shows "\<exists>result. align_lists catalogs m = Some (Inr result)"
  using align_loop_returns [of m "argmax_len catalogs" catalogs 0] assms
    argmax_len_less [of catalogs]
  by (auto simp: align_lists_def)

text \<open>
  C3, as the code has it. For a matcher that holds between every path and itself,
  \<open>align_lists\<close> returns on every non-empty list of catalogs. Whenever it returns, the result
  has as many catalogs as the input, every catalog is at least as long as the reference
  catalog (the first longest catalog of the input), and at every position of the reference
  catalog, an entry of any catalog and the reference entry that are both not sentinels
  satisfy the matcher.
\<close>

theorem C3_alignment:
  "(catalogs \<noteq> [] \<and> (\<forall>x. matcher x x) \<longrightarrow>
      (\<exists>result. align_lists catalogs matcher = Some (Inr result)))
   \<and> (align_lists catalogs matcher = Some (Inr result) \<longrightarrow>
        length result = length catalogs
      \<and> (\<forall>l \<in> set result. length (result ! argmax_len catalogs) \<le> length l)
      \<and> (\<forall>i < length (result ! argmax_len catalogs). \<forall>l \<in> set result.
            path (l ! i) = ''none'' \<or> path (result ! argmax_len catalogs ! i) = ''none''
            \<or> matcher (path (l ! i)) (path (result ! argmax_len catalogs ! i))))"
proof (intro conjI impI)
  assume "catalogs \<noteq> [] \<and> (\<forall>x. matcher x x)"
  then show "\<exists>result. align_lists catalogs matcher = Some (Inr result)"
    using align_lists_returns [of matcher catalogs] by blast
next
  assume ret: "align_lists catalogs matcher = Some (Inr result)"
  have ne: "catalogs \<noteq> []" using ret by (auto simp: align_lists_def)
  then have run: "align_loop matcher (argmax_len catalogs) 0 catalogs = Some result"
    using ret by (auto simp: align_lists_def)
  have "aligned_upto matcher (argmax_len catalogs) 0 catalogs"
    by (simp add: aligned_upto_def)
  with align_loop_result [OF run] argmax_len_less [OF ne]
  have fin: "length result = length catalogs
        \<and> aligned_upto matcher (argmax_len catalogs)
             (length (result ! argmax_len catalogs)) result"
    by simp
  show "length result = length catalogs" using fin by simp
  show "\<forall>l \<in> set result. length (result ! argmax_len catalogs) \<le> length l"
    using fin unfolding aligned_upto_def by simp
  show "\<forall>i < length (result ! argmax_len catalogs). \<forall>l \<in> set result.
            path (l ! i) = ''none'' \<or> path (result ! argmax_len catalogs ! i) = ''none''
            \<or> matcher (path (l ! i)) (path (result ! argmax_len catalogs ! i))"
    using fin unfolding aligned_upto_def by simp
qed

theorem C3_alignment_witness:
  "[vocals, [track ''a/drums.wav'', track ''c/drums.wav'']] \<noteq> [] \<and> (\<forall>x. same_dir x x)
   \<and> align_lists [vocals, [track ''a/drums.wav'', track ''c/drums.wav'']] same_dir
       = Some (Inr [vocals, [track ''a/drums.wav'', sentinel, track ''c/drums.wav'']])
   \<and> argmax_len [vocals, [track ''a/drums.wav'', track ''c/drums.wav'']] = 0
   \<and> length vocals \<le> length [track ''a/drums.wav'', sentinel, track ''c/drums.wav'']
   \<and> same_dir (path (track ''c/drums.wav'')) (path (vocals ! 2))"
proof -
  have r: "align_lists [vocals, [track ''a/drums.wav'', track ''c/drums.wav'']] same_dir
       = Some (Inr [vocals, [track ''a/drums.wav'', sentinel, track ''c/drums.wav'']])"
    by code_simp
  have k: "argmax_len [vocals, [track ''a/drums.wav'', track ''c/drums.wav'']] = 0"
    by code_simp
  have refl: "\<forall>x. same_dir x x" by (simp add: same_dir_def)
  have p: "path (track ''c/drums.wav'') \<noteq> ''none''" "path (vocals ! 2) \<noteq> ''none''"
    by (simp_all add: track_def vocals_def)
  have len: "length vocals = 3" by (simp add: vocals_def)
  note t = C3_alignment [of "[vocals, [track ''a/drums.wav'', track ''c/drums.wav'']]" same_dir
      "[vocals, [track ''a/drums.wav'', sentinel, track ''c/drums.wav'']]"]
  from t [THEN conjunct2] r k have
      a: "\<forall>l \<in> set [vocals, [track ''a/drums.wav'', sentinel, track ''c/drums.wav'']].
            length vocals \<le> length l"
    and b: "\<forall>i < length vocals.
            \<forall>l \<in> set [vocals, [track ''a/drums.wav'', sentinel, track ''c/drums.wav'']].
            path (l ! i) = ''none'' \<or> path (vocals ! i) = ''none''
            \<or> same_dir (path (l ! i)) (path (vocals ! i))"
    by simp_all
  have two: "2 < length vocals" using len by simp
  have inl: "[track ''a/drums.wav'', sentinel, track ''c/drums.wav'']
               \<in> set [vocals, [track ''a/drums.wav'', sentinel, track ''c/drums.wav'']]"
    by simp
  from b [rule_format, OF two inl]
  have "path (track ''c/drums.wav'') = ''none''
        \<or> path (vocals ! 2) = ''none''
        \<or> same_dir (path (track ''c/drums.wav'')) (path (vocals ! 2))"
    by simp
  then have c: "same_dir (path (track ''c/drums.wav'')) (path (vocals ! 2))"
    using p by simp
  from a have d: "length vocals \<le> length [track ''a/drums.wav'', sentinel, track ''c/drums.wav'']"
    by simp
  from r k refl c d show ?thesis by simp
qed

text \<open>
  The scenario of the specification: two catalogs of three items where item 1 mismatches.
  The result has lengths 3 and 5. And with a reference of three items and two other
  catalogs of one item each, position 3 holds two entries that are not sentinels and do
  not match.
\<close>

theorem C3_unequal_lengths_counterexample:
  "align_lists [vocals, drums] same_dir
     = Some (Inr [vocals, [track ''a/drums.wav'', sentinel, sentinel,
                           track ''x/drums.wav'', track ''c/drums.wav'']])
   \<and> length vocals = 3
   \<and> length [track ''a/drums.wav'', sentinel, sentinel,
              track ''x/drums.wav'', track ''c/drums.wav''] = 5
   \<and> align_lists [vocals, [track ''x/bass.wav''], [track ''p/drums.wav'']] same_dir
     = Some (Inr [vocals,
                  [sentinel, sentinel, sentinel, track ''x/bass.wav''],
                  [sentinel, sentinel, sentinel, track ''p/drums.wav'']])
   \<and> path (track ''x/bass.wav'') \<noteq> ''none'' \<and> path (track ''p/drums.wav'') \<noteq> ''none''
   \<and> \<not> same_dir (path (track ''x/bass.wav'')) (path (track ''p/drums.wav''))"
  by code_simp

section \<open>Aligned sampling\<close>

lemma explicit_call_reports:
  assumes "AudioLoader_call e l w st sr d lc nc off (Some s) (Some i) g = (Inr smp, st', w')"
  shows "out_source_idx smp = s \<and> out_item_idx smp = i"
  using call_reports_resolved [OF assms]
  by (auto simp: resolve_item_def split: sum.splits)

lemma gather_Inr: "gather xs = Inr ys \<Longrightarrow> xs = map Inr ys"
  by (induction xs arbitrary: ys rule: gather.induct) (auto split: sum.splits)

lemma call_rest_forced:
  assumes al: "aligned self"
    and run: "call_rest e self first g w st keys = (Inr rest, st', w')"
  shows "map fst rest = keys
       \<and> (\<forall>(key, smp) \<in> set rest.
             forced_by e self first g key smp
           \<and> out_source_idx smp = out_source_idx first
           \<and> out_item_idx smp = out_item_idx first)"
  using run
proof (induction keys arbitrary: w st rest st' w')
  case Nil
  then show ?case by simp
next
  case (Cons key keys)
  from Cons.prems obtain loader where lo: "map_of (loaders self) key = Some loader"
    by (auto split: option.splits)
  from Cons.prems lo al obtain off where
      off: "map_of (metadata (out_signal first)) ''offset'' = Some off"
    by (auto simp: forced_kwargs_def split: option.splits)
  have fk: "forced_kwargs self first
              = Inr (Some off, Some (out_source_idx first), Some (out_item_idx first))"
    using al off by (simp add: forced_kwargs_def)
  obtain r1 st1 w1 where c: "AudioLoader_call e loader w st (ds_sample_rate self)
        (ds_duration self) (ds_loudness_cutoff self) (ds_num_channels self)
        (Some off) (Some (out_source_idx first)) (Some (out_item_idx first)) g = (r1, st1, w1)"
    by (metis prod_cases3)
  from Cons.prems lo fk c obtain smp where r1: "r1 = Inr smp"
    by (cases r1) auto
  obtain r2 st2 w2 where t: "call_rest e self first g w1 st1 keys = (r2, st2, w2)"
    by (metis prod_cases3)
  from Cons.prems lo fk c r1 t obtain others where r2: "r2 = Inr others"
      and rest: "rest = (key, smp) # others"
    by (cases r2) auto
  have f: "forced_by e self first g key smp"
    unfolding forced_by_def using lo off c r1 by (metis fst_conv)
  have s: "out_source_idx smp = out_source_idx first \<and> out_item_idx smp = out_item_idx first"
    using explicit_call_reports [OF c [unfolded r1]] .
  from Cons.IH [OF t [unfolded r2]] f s show ?case by (simp add: rest)
qed

lemma assemble_parts:
  assumes "assemble e self idx item st w = (Inr result, st', w')"
  shows "\<exists>tracks. gather (map (\<lambda>k. case map_of item k of
                               None \<Rightarrow> Inl (Exn KeyError ''item'')
                             | Some smp \<Rightarrow> Inr (k, smp)) (map fst (loaders self))) = Inr tracks
         \<and> (length (loaders self) \<noteq> 1 \<longrightarrow> (\<exists>targs. result = Tracks tracks idx targs))"
  using assms unfolding assemble_def Let_def
  by (auto split: prod.splits option.splits sum.splits if_splits)

lemma getitem_parts:
  assumes "AudioDataset_getitem e self w idx = (Inr item, st', w')"
  shows "\<exists>k0 others st0 loader first st1 w1 rest st2 w2.
           call_order e self idx = k0 # others
         \<and> map_of (loaders self) k0 = Some loader
         \<and> AudioLoader_call e loader w st0 (ds_sample_rate self) (ds_duration self)
               (ds_loudness_cutoff self) (ds_num_channels self) None None None
               (if without_replacement self then Some idx else None) = (Inr first, st1, w1)
         \<and> call_rest e self first (if without_replacement self then Some idx else None)
               w1 st1 others = (Inr rest, st2, w2)
         \<and> assemble e self idx ((k0, first) # rest) st2 w2 = (Inr item, st', w')"
  using assms unfolding AudioDataset_getitem_def Let_def call_order_def
  apply (simp split: prod.splits list.splits option.splits sum.splits if_splits)
   apply blast+
  done

text \<open>
  C4. For a dataset with \<open>aligned = True\<close> and more than one loader, every item that
  \<open>__getitem__(idx)\<close> returns holds one sample for each loader; the sample of every loader
  after the first in call order is what that loader returns when it is called with the
  offset in the metadata of the first sample's signal and with the first sample's
  \<open>source_idx\<close> and \<open>item_idx\<close>, and all samples report the \<open>source_idx\<close> and \<open>item_idx\<close> of
  the first.
\<close>

theorem C4_aligned_tracks:
  assumes al: "aligned self" and many: "1 < length (loaders self)"
    and run: "AudioDataset_getitem e self w idx = (Inr item, st', w')"
  shows "\<exists>tracks targs first.
           item = Tracks tracks idx targs
         \<and> (hd (call_order e self idx), first) \<in> set tracks
         \<and> (\<forall>(key, smp) \<in> set tracks.
               (key \<noteq> hd (call_order e self idx) \<longrightarrow>
                  forced_by e self first (if without_replacement self then Some idx else None)
                    key smp)
             \<and> out_source_idx smp = out_source_idx first
             \<and> out_item_idx smp = out_item_idx first)"
proof -
  let ?g = "if without_replacement self then Some idx else None"
  from getitem_parts [OF run] obtain k0 others st0 loader first st1 w1 rest st2 w2 where
      order: "call_order e self idx = k0 # others"
    and lo: "map_of (loaders self) k0 = Some loader"
    and rest: "call_rest e self first ?g w1 st1 others = (Inr rest, st2, w2)"
    and asm: "assemble e self idx ((k0, first) # rest) st2 w2 = (Inr item, st', w')"
    by blast
  let ?f = "\<lambda>k. case map_of ((k0, first) # rest) k of
                   None \<Rightarrow> Inl (Exn KeyError ''item'')
                 | Some smp \<Rightarrow> Inr (k, smp)"
  from assemble_parts [OF asm] many obtain tracks targs where
      g1: "gather (map ?f (map fst (loaders self))) = Inr tracks"
    and it: "item = Tracks tracks idx targs"
    by auto
  have eq: "map ?f (map fst (loaders self)) = map Inr tracks"
    using g1 by (rule gather_Inr)
  define declared where "declared = fst ` set (loaders self)"
  have mem: "(key, smp) \<in> set tracks \<longleftrightarrow>
               key \<in> declared \<and> map_of ((k0, first) # rest) key = Some smp"
    for key smp
  proof -
    have "(key, smp) \<in> set tracks \<longleftrightarrow> Inr (key, smp) \<in> set (map Inr tracks :: (exn + _) list)"
      by auto
    also have "\<dots> \<longleftrightarrow> Inr (key, smp) \<in> ?f ` declared"
      unfolding eq [symmetric] declared_def by (simp add: image_image)
    also have "\<dots> \<longleftrightarrow> (\<exists>k \<in> declared. Inr (key, smp) = ?f k)"
      by (rule image_iff)
    also have "\<dots> \<longleftrightarrow> key \<in> declared \<and> map_of ((k0, first) # rest) key = Some smp"
    proof
      assume "\<exists>k \<in> declared. Inr (key, smp) = ?f k"
      then obtain k where k: "k \<in> declared" and fk: "Inr (key, smp) = ?f k" by blast
      from fk have "k = key \<and> map_of ((k0, first) # rest) k = Some smp"
        by (cases "map_of ((k0, first) # rest) k") auto
      with k show "key \<in> declared \<and> map_of ((k0, first) # rest) key = Some smp" by auto
    next
      assume r: "key \<in> declared \<and> map_of ((k0, first) # rest) key = Some smp"
      then have "Inr (key, smp) = ?f key" by simp
      with r show "\<exists>k \<in> declared. Inr (key, smp) = ?f k" by blast
    qed
    finally show ?thesis .
  qed
  have k0in: "k0 \<in> declared"
    unfolding declared_def using lo by (metis map_of_eq_None_iff option.distinct(1))
  have first_in: "(k0, first) \<in> set tracks"
    using k0in by (simp add: mem)
  have forced: "\<forall>(key, smp) \<in> set rest.
             forced_by e self first ?g key smp
           \<and> out_source_idx smp = out_source_idx first
           \<and> out_item_idx smp = out_item_idx first"
    using call_rest_forced [OF al rest] by (rule conjunct2)
  have hd: "hd (call_order e self idx) = k0" using order by simp
  have each: "(key \<noteq> hd (call_order e self idx) \<longrightarrow> forced_by e self first ?g key smp)
             \<and> out_source_idx smp = out_source_idx first
             \<and> out_item_idx smp = out_item_idx first"
    if "(key, smp) \<in> set tracks" for key smp
  proof (cases "key = k0")
    case True
    then have "smp = first" using that by (simp add: mem)
    then show ?thesis using True hd by simp
  next
    case False
    then have "map_of rest key = Some smp" using that by (simp add: mem)
    then have "(key, smp) \<in> set rest" by (rule map_of_SomeD)
    with forced have "forced_by e self first ?g key smp
           \<and> out_source_idx smp = out_source_idx first
           \<and> out_item_idx smp = out_item_idx first"
      by fast
    then show ?thesis by simp
  qed
  have all: "\<forall>(key, smp) \<in> set tracks.
               (key \<noteq> hd (call_order e self idx) \<longrightarrow> forced_by e self first ?g key smp)
             \<and> out_source_idx smp = out_source_idx first
             \<and> out_item_idx smp = out_item_idx first"
  proof (rule ballI)
    fix p assume p: "p \<in> set tracks"
    obtain key smp where ks: "p = (key, smp)" by (cases p)
    from each [of key smp] p ks
    show "case p of (key, smp) \<Rightarrow>
               (key \<noteq> hd (call_order e self idx) \<longrightarrow> forced_by e self first ?g key smp)
             \<and> out_source_idx smp = out_source_idx first
             \<and> out_item_idx smp = out_item_idx first"
      by simp
  qed
  have first_in': "(hd (call_order e self idx), first) \<in> set tracks"
    using first_in hd by simp
  have body: "item = Tracks tracks idx targs
         \<and> (hd (call_order e self idx), first) \<in> set tracks
         \<and> (\<forall>(key, smp) \<in> set tracks.
               (key \<noteq> hd (call_order e self idx) \<longrightarrow> forced_by e self first ?g key smp)
             \<and> out_source_idx smp = out_source_idx first
             \<and> out_item_idx smp = out_item_idx first)"
    using it first_in' all by (intro conjI)
  show ?thesis by (intro exI) (rule body)
qed

theorem C4_aligned_tracks_witness:
  "AudioDataset_init [(''vocals'', vocals_loader), (''drums'', drums_loader)]
       3 1000 (1 / 2) None (- 40) 1 None True False same_dir True = Some (Inr demo_dataset)
   \<and> aligned demo_dataset \<and> 1 < length (loaders demo_dataset)
   \<and> AudioDataset_getitem demo_env demo_dataset quiet 1
       = (Inr (Tracks [(''vocals'', vocals_sample), (''drums'', drums_sample)] 1 None), 2, quiet)
   \<and> hd (call_order demo_env demo_dataset 1) = ''vocals''
   \<and> out_source_idx drums_sample = out_source_idx vocals_sample
   \<and> out_item_idx drums_sample = out_item_idx vocals_sample
   \<and> forced_by demo_env demo_dataset vocals_sample (Some 1) ''drums'' drums_sample"
proof -
  have i: "AudioDataset_init [(''vocals'', vocals_loader), (''drums'', drums_loader)]
       3 1000 (1 / 2) None (- 40) 1 None True False same_dir True = Some (Inr demo_dataset)"
    by code_simp
  have a: "aligned demo_dataset" by (simp add: demo_dataset_def)
  have m: "1 < length (loaders demo_dataset)" by (simp add: demo_dataset_def)
  have wr: "without_replacement demo_dataset" by (simp add: demo_dataset_def)
  have g: "AudioDataset_getitem demo_env demo_dataset quiet 1
       = (Inr (Tracks [(''vocals'', vocals_sample), (''drums'', drums_sample)] 1 None), 2, quiet)"
    by code_simp
  have h: "hd (call_order demo_env demo_dataset 1) = ''vocals''" by code_simp
  from C4_aligned_tracks [OF a m g] obtain first where
      f: "(''vocals'', first) \<in> set [(''vocals'', vocals_sample), (''drums'', drums_sample)]"
    and all: "\<forall>(key, smp) \<in> set [(''vocals'', vocals_sample), (''drums'', drums_sample)].
               (key \<noteq> ''vocals'' \<longrightarrow> forced_by demo_env demo_dataset first (Some 1) key smp)
             \<and> out_source_idx smp = out_source_idx first
             \<and> out_item_idx smp = out_item_idx first"
    unfolding h using wr by auto
  from f have first: "first = vocals_sample" by simp
  from all first i a m g h show ?thesis by simp
qed

end
